theory Spec2Isabelle
  imports Complex_Main "HOL-Library.Word"
begin

section \<open>JavaScript strings\<close>

text \<open>
  A JavaScript string is a sequence of UTF-16 code units. The pages this script reads are
  not ASCII, so a character is a 16-bit word and not an 8-bit \<open>char\<close>; \<open>js\<close> embeds an
  ASCII literal of the source.
\<close>

type_synonym jschar = "16 word"
type_synonym jsstring = "jschar list"

definition js :: "string \<Rightarrow> jsstring" where
  "js s = map of_char s"

definition nl :: jschar where
  "nl = 10"

text \<open>
  The class \<open>\s\<close> of a regular expression and the characters \<open>String.prototype.trim\<close>
  removes are the same set: ECMAScript's WhiteSpace and LineTerminator code points.
\<close>

definition isWhiteSpace :: "jschar \<Rightarrow> bool" where
  "isWhiteSpace c =
     (c \<in> set [0x9, 0xA, 0xB, 0xC, 0xD, 0x20, 0xA0, 0x1680, 0x2028, 0x2029, 0x202F,
                0x205F, 0x3000, 0xFEFF]
      \<or> (0x2000 \<le> c \<and> c \<le> 0x200A))"

text \<open>\<open>s.startsWith(p)\<close>.\<close>

definition startsWith :: "jsstring \<Rightarrow> jsstring \<Rightarrow> bool" where
  "startsWith s p = (take (length p) s = p)"

text \<open>
  \<open>s.split(sep)\<close> for a string separator: the pieces between the leftmost,
  non-overlapping occurrences of \<open>sep\<close>; the empty separator splits into code units.
\<close>

function split :: "jsstring \<Rightarrow> jsstring \<Rightarrow> jsstring list" where
  "split sep s =
     (if sep = [] then map (\<lambda>c. [c]) s
      else if s = [] then [[]]
      else if startsWith s sep then [] # split sep (drop (length sep) s)
      else (case split sep (tl s) of
              [] \<Rightarrow> [[hd s]]
            | p # ps \<Rightarrow> (hd s # p) # ps))"
  by pat_completeness auto
termination
  by (relation "measure (\<lambda>(sep, s). length s)") auto

declare split.simps [simp del]

text \<open>\<open>arr.join(sep)\<close>.\<close>

fun join :: "jsstring \<Rightarrow> jsstring list \<Rightarrow> jsstring" where
  "join sep [] = []"
| "join sep [x] = x"
| "join sep (x # y # ys) = x @ sep @ join sep (y # ys)"

section \<open>Report parser\<close>

text \<open>
  \<open>parseReportFile\<close> matches every line against \<open>/URL: (https?:\/\/[^\s]+)/\<close>.

  \<open>match_scheme\<close> is the part \<open>https?:\/\/\<close> anchored at the start of its argument and
  returns the length matched. The optional \<open>s\<close> is greedy; giving it back cannot help,
  since the text would then have to continue with \<open>:\<close> where it has \<open>s\<close>.
\<close>

definition match_scheme :: "jsstring \<Rightarrow> nat option" where
  "match_scheme s =
     (if startsWith s (js ''http'') then
        (let r = drop 4 s;
             n = (if startsWith r (js ''s'') then 1 else 0)
         in if startsWith (drop n r) (js ''://'') then Some (4 + n + 3) else None)
      else None)"

text \<open>
  The whole expression anchored at the start of \<open>s\<close>; the result is capture group 1.
  \<open>[^\s]+\<close> is greedy and nothing follows it, so it takes the longest run of
  non-whitespace, which must not be empty.
\<close>

definition match_url_at :: "jsstring \<Rightarrow> jsstring option" where
  "match_url_at s =
     (if startsWith s (js ''URL: '') then
        (let r = drop 5 s in
         case match_scheme r of
           None \<Rightarrow> None
         | Some n \<Rightarrow>
             (let body = takeWhile (\<lambda>c. \<not> isWhiteSpace c) (drop n r)
              in if body = [] then None else Some (take n r @ body)))
      else None)"

text \<open>\<open>line.match(re)\<close> without the \<open>g\<close> flag: the leftmost position that matches.\<close>

fun match_url :: "jsstring \<Rightarrow> jsstring option" where
  "match_url [] = match_url_at []"
| "match_url (c # cs) =
     (case match_url_at (c # cs) of
        Some u \<Rightarrow> Some u
      | None \<Rightarrow> match_url cs)"

text \<open>The loop over the lines; \<open>match && match[1]\<close> also asks that the capture is not empty.\<close>

fun collect_urls :: "jsstring list \<Rightarrow> jsstring list \<Rightarrow> jsstring list" where
  "collect_urls urls [] = urls"
| "collect_urls urls (line # lines) =
     (case match_url line of
        Some u \<Rightarrow> if u \<noteq> [] then collect_urls (urls @ [u]) lines else collect_urls urls lines
      | None \<Rightarrow> collect_urls urls lines)"

definition parseReportFile :: "jsstring \<Rightarrow> jsstring list" where
  "parseReportFile fileContent = collect_urls [] (split [nl] fileContent)"

text \<open>The texts that follow the occurrences of a marker in a line, one per occurrence.\<close>

fun after_marker :: "jsstring \<Rightarrow> jsstring \<Rightarrow> jsstring list" where
  "after_marker m [] = (if m = [] then [[]] else [])"
| "after_marker m (c # cs) =
     (if startsWith (c # cs) m then [drop (length m) (c # cs)] else []) @ after_marker m cs"

definition has_scheme :: "jsstring \<Rightarrow> bool" where
  "has_scheme s = (startsWith s (js ''http://'') \<or> startsWith s (js ''https://''))"

section \<open>Failure report\<close>

text \<open>An element of \<open>skippedChapters\<close> or \<open>incompleteChapters\<close>: \<open>{ url, reason }\<close>.\<close>

record failed_chapter =
  url :: jsstring
  reason :: jsstring

text \<open>\<open>`URL: ${item.url} (Reason: ${item.reason})`\<close>\<close>

definition report_line :: "failed_chapter \<Rightarrow> jsstring" where
  "report_line item = js ''URL: '' @ url item @ js '' (Reason: '' @ reason item @ js '')''"

text \<open>
  The report text that \<open>processDownloadCore\<close> builds after the loop (\<open>reportContent\<close>):
  a header and the skipped entries, one per line, or a sentence when there are none;
  an empty line; the same for the incomplete entries.
\<close>

definition reportContent :: "failed_chapter list \<Rightarrow> failed_chapter list \<Rightarrow> jsstring" where
  "reportContent skippedChapters incompleteChapters =
     (js ''--- Skipped Chapters (CAPTCHA / 403) ---'' @ [nl])
     @ (if length skippedChapters > 0
        then join [nl] (map report_line skippedChapters) @ [nl]
        else js ''No chapters skipped due to CAPTCHA.'' @ [nl])
     @ ([nl] @ js ''--- Incomplete/Failed Chapters ---'' @ [nl])
     @ (if length incompleteChapters > 0
        then join [nl] (map report_line incompleteChapters) @ [nl]
        else js ''No chapters incomplete or failed.'' @ [nl])"

text \<open>
  A URL that the parser's expression reads back whole: \<open>http://\<close> or \<open>https://\<close>, at
  least one more character, and no whitespace anywhere.
\<close>

definition report_url_ok :: "jsstring \<Rightarrow> bool" where
  "report_url_ok u =
     ((startsWith u (js ''http://'') \<and> length u > 7
       \<or> startsWith u (js ''https://'') \<and> length u > 8)
      \<and> list_all (\<lambda>c. \<not> isWhiteSpace c) u)"

definition report_entry_ok :: "failed_chapter \<Rightarrow> bool" where
  "report_entry_ok item = (report_url_ok (url item) \<and> nl \<notin> set (reason item))"

text \<open>The lines of one section of the report: its entries, or the sentence for none.\<close>

definition report_section :: "jsstring \<Rightarrow> failed_chapter list \<Rightarrow> jsstring list" where
  "report_section none es = (if length es > 0 then map report_line es else [none])"

section \<open>Content normalisation\<close>

text \<open>
  \<open>s.replace(re, rep)\<close> for an expression with the \<open>g\<close> flag. The expression is given
  as a matcher: the length of its match anchored at the start of the text, if there is
  one. The scan goes left to right, each match is replaced and the scan resumes behind it;
  after an empty match it copies one code unit and goes on. None of the replacement texts
  of this program holds a \<open>$\<close>, so they are inserted as they are.
\<close>

function replace_all :: "(jsstring \<Rightarrow> nat option) \<Rightarrow> jsstring \<Rightarrow> jsstring \<Rightarrow> jsstring" where
  "replace_all m rep s =
     (case s of
        [] \<Rightarrow> (case m [] of Some n \<Rightarrow> rep | None \<Rightarrow> [])
      | c # cs \<Rightarrow>
          (case m s of
             None \<Rightarrow> c # replace_all m rep cs
           | Some n \<Rightarrow>
               if n = 0 then rep @ c # replace_all m rep cs
               else rep @ replace_all m rep (drop n s)))"
  by pat_completeness auto
termination
  by (relation "measure (\<lambda>(m, rep, s). length s)") auto

declare replace_all.simps [simp del]

text \<open>A literal text as an expression: \<open>/<div>/\<close>, or an entity given to \<open>new RegExp\<close>.\<close>

definition match_literal :: "jsstring \<Rightarrow> jsstring \<Rightarrow> nat option" where
  "match_literal p s = (if startsWith s p then Some (length p) else None)"

text \<open>
  \<open>/<br\s*[/]?>/\<close>. Both \<open>\s*\<close> and \<open>[/]?\<close> are greedy, and giving a character back
  never helps: it would leave a whitespace character or a slash where the expression
  needs \<open>/\<close> or \<open>>\<close>.
\<close>

definition match_br :: "jsstring \<Rightarrow> nat option" where
  "match_br s =
     (if startsWith s (js ''<br'') then
        (let r = drop 3 s;
             k = length (takeWhile isWhiteSpace r);
             r1 = drop k r;
             j = (if startsWith r1 (js ''/'') then 1 else 0)
         in if startsWith (drop j r1) (js ''>'') then Some (3 + k + j + 1) else None)
      else None)"

text \<open>
  \<open>/<[^>]*>/\<close>: from \<open><\<close> to the first \<open>>\<close> behind it, line breaks included; no match
  when no \<open>>\<close> follows.
\<close>

definition match_tag :: "jsstring \<Rightarrow> nat option" where
  "match_tag s =
     (case s of
        [] \<Rightarrow> None
      | c # r \<Rightarrow>
          if c = 0x3C then
            (let body = takeWhile (\<lambda>d. d \<noteq> 0x3E) r
             in if length body < length r then Some (1 + length body + 1) else None)
          else None)"

text \<open>
  \<open>/<img[^>]*>/i\<close>. Without the \<open>u\<close> flag a letter of the pattern matches its two ASCII
  cases only: a character beyond ASCII is never folded onto an ASCII one.
\<close>

definition match_img :: "jsstring \<Rightarrow> nat option" where
  "match_img s =
     (case s of
        a # b # c # d # r \<Rightarrow>
          if a = 0x3C \<and> b \<in> set (js ''iI'') \<and> c \<in> set (js ''mM'') \<and> d \<in> set (js ''gG'') then
            (let body = takeWhile (\<lambda>e. e \<noteq> 0x3E) r
             in if length body < length r then Some (4 + length body + 1) else None)
          else None
      | _ \<Rightarrow> None)"

text \<open>\<open>/c{k,}/\<close>: a run of at least \<open>k\<close> copies of the character \<open>c\<close>, as long as it goes.\<close>

definition match_run :: "jschar \<Rightarrow> nat \<Rightarrow> jsstring \<Rightarrow> nat option" where
  "match_run c k s =
     (let n = length (takeWhile (\<lambda>d. d = c) s) in if k \<le> n then Some n else None)"

text \<open>The table of \<open>unescapeHTML\<close>, in the order \<open>Object.entries\<close> walks it.\<close>

definition entities :: "(jsstring \<times> jsstring) list" where
  "entities =
     [(js ''&lt;'', js ''<''),
      (js ''&gt;'', js ''>''),
      (js ''&amp;'', js ''&''),
      (js ''&quot;'', [0x22]),
      (js ''&apos;'', [0x27]),
      (js ''&nbsp;'', js '' ''),
      (js ''&ndash;'', js ''-''),
      (js ''&mdash;'', js ''--''),
      (js ''&lsquo;'', [0x27]),
      (js ''&rsquo;'', [0x27]),
      (js ''&ldquo;'', [0x22]),
      (js ''&rdquo;'', [0x22])]"

definition unescapeHTML :: "jsstring \<Rightarrow> jsstring" where
  "unescapeHTML text =
     foldl (\<lambda>result (entity, replacement). replace_all (match_literal entity) replacement result)
       text entities"

text \<open>\<open>s.trim()\<close>.\<close>

definition trim :: "jsstring \<Rightarrow> jsstring" where
  "trim s = rev (dropWhile isWhiteSpace (rev (dropWhile isWhiteSpace s)))"

definition cleanText :: "jsstring \<Rightarrow> jsstring" where
  "cleanText text =
     (let cleaned = text;
          cleaned = replace_all (match_literal (js ''<div>'')) [] cleaned;
          cleaned = replace_all (match_literal (js ''</div>'')) [] cleaned;
          cleaned = replace_all (match_literal (js ''<p>'')) [nl] cleaned;
          cleaned = replace_all (match_literal (js ''</p>'')) [nl] cleaned;
          cleaned = replace_all match_br [nl] cleaned;
          cleaned = replace_all match_img (js ''[Image Skipped]'') cleaned;
          cleaned = replace_all match_tag [] cleaned;
          cleaned = replace_all (match_run 0x20 2) (js '' '') cleaned;
          cleaned = unescapeHTML cleaned;
          cleaned =
            replace_all (match_run nl 3) [nl, nl]
              (join [nl, nl]
                (filter (\<lambda>line. length line > 0)
                  (map (\<lambda>line. trim line) (split [nl] cleaned))))
      in cleaned)"

text \<open>\<open>s.includes(sub)\<close>.\<close>

fun includes_str :: "jsstring \<Rightarrow> jsstring \<Rightarrow> bool" where
  "includes_str [] sub = (sub = [])"
| "includes_str (c # cs) sub = (startsWith (c # cs) sub \<or> includes_str cs sub)"

text \<open>The number of line breaks a text begins with.\<close>

definition lead :: "jsstring \<Rightarrow> nat" where
  "lead s = length (takeWhile (\<lambda>d. d = nl) s)"

section \<open>Fetching one chapter\<close>

text \<open>
  What the page gives the function. An awaited call either throws an error, of which only
  \<open>error.message\<close> is read, or returns. An element of the parsed document offers
  \<open>getAttribute("title")\<close> (\<open>null\<close> when the attribute is absent), \<open>textContent\<close> and
  \<open>innerHTML\<close>; the document is its \<open>querySelector\<close>. A response has its \<open>status\<close>;
  \<open>body\<close> stands for \<open>response.text()\<close> followed by \<open>DOMParser.parseFromString\<close>.
\<close>

datatype 'a attempt = Throws jsstring | Returns 'a

record element =
  title_attribute :: "jsstring option"
  textContent :: jsstring
  innerHTML :: jsstring

type_synonym document = "jsstring \<Rightarrow> element option"

record response =
  status :: nat
  body :: "document attempt"

text \<open>\<open>response.ok\<close>: the status is in the range 200 to 299.\<close>

definition ok :: "response \<Rightarrow> bool" where
  "ok r = (200 \<le> status r \<and> status r \<le> 299)"

text \<open>
  The object \<open>fetchNovelContent\<close> returns: its \<open>status\<close> tag decides which other fields
  it has.
\<close>

datatype fetch_result =
    Success jsstring jsstring \<comment> \<open>\<open>episodeTitle\<close>, \<open>content\<close>\<close>
  | Captcha jsstring \<comment> \<open>\<open>url\<close>\<close>
  | NetworkError jsstring nat \<comment> \<open>\<open>url\<close>, \<open>statusCode\<close>\<close>
  | NoContentFound jsstring \<comment> \<open>\<open>url\<close>\<close>
  | FetchError jsstring jsstring \<comment> \<open>\<open>url\<close>, \<open>message\<close>\<close>

fun status_tag :: "fetch_result \<Rightarrow> string" where
  "status_tag (Success t c) = ''success''"
| "status_tag (Captcha u) = ''captcha''"
| "status_tag (NetworkError u n) = ''network_error''"
| "status_tag (NoContentFound u) = ''no_content_found''"
| "status_tag (FetchError u m) = ''fetch_error''"

text \<open>\<open>result.content\<close>: absent (\<open>undefined\<close>) on every object but the successful one.\<close>

fun content_field :: "fetch_result \<Rightarrow> jsstring option" where
  "content_field (Success t c) = Some c"
| "content_field (Captcha u) = None"
| "content_field (NetworkError u n) = None"
| "content_field (NoContentFound u) = None"
| "content_field (FetchError u m) = None"

definition titleSelectors :: "jsstring list" where
  "titleSelectors =
     [js ''.toon-title'', js ''.view-title'', js ''h1.title'', js ''.post-title'',
      js ''.entry-title'']"

definition contentSelectors :: "jsstring list" where
  "contentSelectors =
     [js ''#novel_content'', js ''.novel-content'', js ''.view-content'',
      js ''.entry-content'', js ''.post-content'']"

text \<open>The loop \<open>for (const selector of selectors)\<close> that breaks at the first element found.\<close>

fun query_first :: "document \<Rightarrow> jsstring list \<Rightarrow> element option" where
  "query_first doc [] = None"
| "query_first doc (selector # selectors) =
     (case doc selector of
        Some e \<Rightarrow> Some e
      | None \<Rightarrow> query_first doc selectors)"

text \<open>
  The title of the episode. \<open>a || b || c\<close> takes the first operand that is neither
  \<open>null\<close> nor the empty string. \<open>split("<br>")[0]\<close> is the text before the first
  occurrence of the four characters \<open><br>\<close>; \<open>split\<close> with a non-empty separator never
  returns an empty array, so the index 0 is always there.
\<close>

definition resolve_title :: "element option \<Rightarrow> jsstring" where
  "resolve_title titleElement =
     (case titleElement of
        None \<Rightarrow> js ''Untitled Episode''
      | Some e \<Rightarrow>
          (let a = (case title_attribute e of None \<Rightarrow> [] | Some t \<Rightarrow> t);
               t = trim (hd (split (js ''<br>'') (textContent e)))
           in if a \<noteq> [] then a
              else if t \<noteq> [] then t
              else js ''Untitled Episode''))"

definition fetchNovelContent :: "(jsstring \<Rightarrow> response attempt) \<Rightarrow> jsstring \<Rightarrow> fetch_result" where
  "fetchNovelContent fetch = (\<lambda>url.
     case fetch url of
        Throws msg \<Rightarrow> FetchError url msg
      | Returns response \<Rightarrow>
          if status response = 403 then Captcha url
          else if \<not> ok response then NetworkError url (status response)
          else
            (case body response of
               Throws msg \<Rightarrow> FetchError url msg
             | Returns doc \<Rightarrow>
                 (let titleElement = query_first doc titleSelectors;
                      episodeTitle = resolve_title titleElement
                  in case query_first doc contentSelectors of
                       None \<Rightarrow> NoContentFound url
                     | Some content \<Rightarrow>
                         (let cleanedContent = cleanText (innerHTML content);
                              cleanedContent =
                                (if startsWith cleanedContent episodeTitle
                                 then trim (drop (length episodeTitle) cleanedContent)
                                 else cleanedContent)
                          in Success episodeTitle cleanedContent))))"

section \<open>Numbers as text\<close>

text \<open>
  The decimal digits of a natural number, as \<open>`${n}`\<close> prints an integer below
  \<open>10\<^sup>2\<^sup>1\<close>.
\<close>

fun show_nat :: "nat \<Rightarrow> jsstring" where
  "show_nat n = (if n < 10 then [of_nat (48 + n)] else show_nat (n div 10) @ [of_nat (48 + n mod 10)])"

declare show_nat.simps [simp del]

definition show_int :: "int \<Rightarrow> jsstring" where
  "show_int i = (if i < 0 then js ''-'' @ show_nat (nat (- i)) else show_nat (nat i))"

text \<open>
  A JavaScript number is a double. A finite double is the rational it stands for, and
  every arithmetic operation gives the exact result rounded to the nearest double, a tie
  going to the even mantissa (\<open>dbl\<close>). \<open>NaN\<close> and the two infinities are values of their
  own. Left out: the sign of zero (a zero is the positive one, which is what a count or a
  difference of clock readings is), overflow to an infinity (from \<open>2\<^sup>1\<^sup>0\<^sup>2\<^sup>4\<close> on; the
  quantities here are milliseconds and counts), and the exponent notation \<open>toFixed\<close>
  and \<open>`${n}`\<close> switch to from \<open>10\<^sup>2\<^sup>1\<close> on.
\<close>

datatype jsnumber = Finite rat | PosInfinity | NegInfinity | NaN

definition pow2 :: "int \<Rightarrow> rat" where
  "pow2 e = (if 0 \<le> e then 2 ^ nat e else 1 / 2 ^ nat (- e))"

text \<open>The number of binary digits of a positive integer.\<close>

function bit_length :: "int \<Rightarrow> int" where
  "bit_length n = (if n \<le> 0 then 0 else 1 + bit_length (n div 2))"
  by pat_completeness auto
termination
  by (relation "measure nat") auto

declare bit_length.simps [simp del]

text \<open>
  For a positive \<open>x\<close>, the exponent \<open>e\<close> with \<open>2\<^sup>e \<le> x < 2\<^sup>e\<^sup>+\<^sup>1\<close>: the difference of the
  bit lengths of numerator and denominator, or one less.
\<close>

definition binary_exponent :: "rat \<Rightarrow> int" where
  "binary_exponent x =
     (let (p, q) = quotient_of x;
          d = bit_length p - bit_length q
      in if pow2 d \<le> x then d else d - 1)"

definition round_half_even :: "rat \<Rightarrow> int" where
  "round_half_even x =
     (let f = \<lfloor>x\<rfloor>; r = x - of_int f
      in if r < 1 / 2 then f
         else if 1 / 2 < r then f + 1
         else if even f then f else f + 1)"

text \<open>
  The nearest double: 53 binary digits of mantissa, and from the exponent \<open>-1022\<close> down
  the fixed spacing \<open>2\<^sup>-\<^sup>1\<^sup>0\<^sup>7\<^sup>4\<close> of the subnormal numbers.
\<close>

definition dbl :: "rat \<Rightarrow> rat" where
  "dbl x =
     (if x = 0 then 0
      else
        (let a = \<bar>x\<bar>;
             e = max (binary_exponent a) (- 1022);
             ulp = pow2 (e - 52);
             n = round_half_even (a / ulp)
         in sgn x * of_int n * ulp))"

text \<open>\<open>a / b\<close> for finite operands: a division by zero is not an error.\<close>

definition js_divide :: "rat \<Rightarrow> rat \<Rightarrow> jsnumber" where
  "js_divide a b =
     (if b = 0 then (if a = 0 then NaN else if 0 < a then PosInfinity else NegInfinity)
      else Finite (dbl (a / b)))"

text \<open>\<open>x * k\<close> for a finite, positive factor \<open>k\<close>.\<close>

definition js_times :: "jsnumber \<Rightarrow> rat \<Rightarrow> jsnumber" where
  "js_times x k = (case x of Finite a \<Rightarrow> Finite (dbl (a * k)) | other \<Rightarrow> other)"

text \<open>
  \<open>x.toFixed(f)\<close>: \<open>NaN\<close> and the infinities print their names; the exact value of a
  finite double is rounded to \<open>f\<close> decimals, a tie going up in magnitude, and the sign is
  put in front.
\<close>

definition toFixed_digits :: "nat \<Rightarrow> rat \<Rightarrow> jsstring" where
  "toFixed_digits f x =
     (let n = nat \<lfloor>x * 10 ^ f + 1 / 2\<rfloor>;
          m = show_nat n
      in if f = 0 then m
         else
           (let m = (if length m \<le> f then replicate (f + 1 - length m) 0x30 @ m else m);
                k = length m
            in take (k - f) m @ js ''.'' @ drop (k - f) m))"

definition toFixed :: "jsnumber \<Rightarrow> nat \<Rightarrow> jsstring" where
  "toFixed x f =
     (case x of
        NaN \<Rightarrow> js ''NaN''
      | PosInfinity \<Rightarrow> js ''Infinity''
      | NegInfinity \<Rightarrow> js ''-Infinity''
      | Finite a \<Rightarrow> if a < 0 then js ''-'' @ toFixed_digits f (- a) else toFixed_digits f a)"

text \<open>
  \<open>a % b\<close> for finite operands and \<open>b\<close> not zero: the remainder has the sign of \<open>a\<close>. It
  is a double whenever \<open>a\<close> and \<open>b\<close> are, so nothing is rounded.
\<close>

definition js_rem :: "rat \<Rightarrow> rat \<Rightarrow> rat" where
  "js_rem a b =
     (let q = a / b; t = (if q < 0 then \<lceil>q\<rceil> else \<lfloor>q\<rfloor>) in a - b * of_int t)"

section \<open>Progress tracker\<close>

definition formatTime :: "rat \<Rightarrow> jsstring" where
  "formatTime ms =
     (if ms < 60000 then show_int \<lceil>dbl (ms / 1000)\<rceil> @ js ''s''
      else if ms < 3600000 then
        (let mins = \<lfloor>dbl (ms / 60000)\<rfloor>;
             secs = \<lfloor>dbl (js_rem ms 60000 / 1000)\<rfloor>
         in show_int mins @ js ''m '' @ show_int secs @ js ''s'')
      else
        (let hours = \<lfloor>dbl (ms / 3600000)\<rfloor>;
             mins = \<lfloor>dbl (js_rem ms 3600000 / 60000)\<rfloor>
         in show_int hours @ js ''h '' @ show_int mins @ js ''m''))"

text \<open>
  The closure that \<open>createProgressTracker\<close> returns: the constants \<open>totalItems\<close> and
  \<open>startTime\<close> and the array \<open>processingTimes\<close>. The clock is an argument: \<open>now\<close> is what
  \<open>Date.now()\<close> returns at the call, in milliseconds. Counts and clock readings are
  integers that a double holds exactly.
\<close>

record tracker =
  totalItems :: nat
  startTime :: int
  processingTimes :: "rat list"

record stats =
  progress :: jsstring
  remaining :: jsstring
  elapsed :: jsstring
  speed :: jsstring

definition MAX_SAMPLES :: nat where
  "MAX_SAMPLES = 5"

definition createProgressTracker :: "nat \<Rightarrow> int \<Rightarrow> tracker" where
  "createProgressTracker item_count now =
     \<lparr>totalItems = item_count, startTime = now, processingTimes = []\<rparr>"

definition update :: "tracker \<Rightarrow> int \<Rightarrow> nat \<Rightarrow> tracker \<times> stats" where
  "update tr now completedItems =
     (let progress_value = js_times (js_divide (of_nat completedItems) (of_nat (totalItems tr))) 100;
          elapsed_ms = dbl (of_int now - of_int (startTime tr));
          times =
            (if completedItems > 0 then
               (let currentTimePerItem = dbl (elapsed_ms / of_nat completedItems);
                    pushed = processingTimes tr @ [currentTimePerItem]
                in if length pushed > MAX_SAMPLES then tl pushed else pushed)
             else processingTimes tr);
          avgTimePerItem =
            (if length times > 0
             then dbl (foldl (\<lambda>sum time. dbl (sum + time)) 0 times / of_nat (length times))
             else 0);
          remainingItems = dbl (of_nat (totalItems tr) - of_nat completedItems);
          estimatedRemainingTime = dbl (avgTimePerItem * remainingItems)
      in (tr\<lparr>processingTimes := times\<rparr>,
          \<lparr>progress = toFixed progress_value 1,
           remaining = formatTime estimatedRemainingTime,
           elapsed = formatTime elapsed_ms,
           speed = (if avgTimePerItem > 0 then toFixed (Finite (dbl (1000 / avgTimePerItem))) 2
                    else js ''0.00'')\<rparr>))"

section \<open>Download loop\<close>

text \<open>\<open>name.replace(/[/\\?%*:|"<>]/g, "_")\<close>: the class holds the ten characters listed.\<close>

definition invalid_filename_chars :: "jschar list" where
  "invalid_filename_chars = [0x2F, 0x5C, 0x3F, 0x25, 0x2A, 0x3A, 0x7C, 0x22, 0x3C, 0x3E]"

definition match_invalid :: "jsstring \<Rightarrow> nat option" where
  "match_invalid s =
     (case s of
        [] \<Rightarrow> None
      | c # r \<Rightarrow> if c \<in> set invalid_filename_chars then Some 1 else None)"

definition sanitizeFilename :: "jsstring \<Rightarrow> jsstring" where
  "sanitizeFilename name = replace_all match_invalid (js ''_'') name"

text \<open>
  The variables of \<open>processDownloadCore\<close> that the loop changes. \<open>zip\<close> is \<open>None\<close> while
  the variable is undefined (text mode); a JSZip object is the map from entry names to
  contents, and \<open>zip.file(name, data)\<close> sets the entry of that name. \<open>requested\<close> is not
  a variable of the source: it records the URLs given to \<open>fetch\<close>, in order.
\<close>

record job_state =
  novelText :: jsstring
  zip :: "(jsstring \<rightharpoonup> jsstring) option"
  completedEpisodes :: nat
  skippedChapters :: "failed_chapter list"
  incompleteChapters :: "failed_chapter list"
  isDownloadCancelled :: bool
  requested :: "jsstring list"

text \<open>
  The one point at which the user confirms the cancel dialog, which sets
  \<open>isDownloadCancelled\<close> and removes the download dialog with its close button. Handlers
  run only while the function awaits: during the fetch of iteration \<open>i\<close> or during the
  delay that ends it.
\<close>

datatype cancel_point = NoCancel | DuringFetch nat | DuringDelay nat

text \<open>
  The surroundings of one job: whether \<open>loadScript\<close> resolves, whether \<open>window.JSZip\<close> is
  defined after a given number of milliseconds of waiting, the answer of the network to
  the fetch of iteration \<open>i\<close>, and the cancel point.
\<close>

record job_env =
  script_loads :: bool
  jszip_defined :: "nat \<Rightarrow> bool"
  network :: "nat \<Rightarrow> jsstring \<Rightarrow> response attempt"
  cancel :: cancel_point

text \<open>The branches on \<open>result.status\<close> in the loop body.\<close>

definition record_result :: "bool \<Rightarrow> jsstring \<Rightarrow> fetch_result \<Rightarrow> job_state \<Rightarrow> job_state" where
  "record_result saveAsZip episodeUrl result st =
     (case result of
        Success fetchedEpisodeTitle content \<Rightarrow>
          (if saveAsZip then
             st\<lparr>zip := map_option
                    (\<lambda>z. z(sanitizeFilename fetchedEpisodeTitle @ js ''.txt'' \<mapsto> content)) (zip st),
                completedEpisodes := completedEpisodes st + 1\<rparr>
           else
             st\<lparr>novelText := novelText st @ [nl, nl] @ js ''--- '' @ fetchedEpisodeTitle
                    @ js '' ---'' @ [nl, nl] @ content,
                completedEpisodes := completedEpisodes st + 1\<rparr>)
      | Captcha u \<Rightarrow>
          st\<lparr>skippedChapters := skippedChapters st
                 @ [\<lparr>url = episodeUrl, reason = js ''CAPTCHA (403)''\<rparr>]\<rparr>
      | NetworkError u code \<Rightarrow>
          st\<lparr>incompleteChapters := incompleteChapters st
                 @ [\<lparr>url = episodeUrl,
                     reason = js ''Network Error ('' @ show_nat code @ js '')''\<rparr>]\<rparr>
      | NoContentFound u \<Rightarrow>
          st\<lparr>incompleteChapters := incompleteChapters st
                 @ [\<lparr>url = episodeUrl, reason = js ''No Content Found''\<rparr>]\<rparr>
      | FetchError u msg \<Rightarrow>
          st\<lparr>incompleteChapters := incompleteChapters st
                 @ [\<lparr>url = episodeUrl, reason = js ''Fetch Error: '' @ msg\<rparr>]\<rparr>)"

text \<open>
  One pass through the loop body, entered with the flag down: the fetch, during which the
  flag may go up; the bookkeeping; the delay, during which the flag may go up. What the
  body writes to the dialog (status line, progress bar, counters, the progress tracker's
  figures) is display only and is left out.
\<close>

definition iteration :: "job_env \<Rightarrow> bool \<Rightarrow> nat \<Rightarrow> jsstring \<Rightarrow> job_state \<Rightarrow> job_state" where
  "iteration env saveAsZip i episodeUrl st =
     (let st = st\<lparr>requested := requested st @ [episodeUrl]\<rparr>;
          result = fetchNovelContent (network env i) episodeUrl;
          st = (if cancel env = DuringFetch i then st\<lparr>isDownloadCancelled := True\<rparr> else st);
          st = record_result saveAsZip episodeUrl result st;
          st = (if cancel env = DuringDelay i then st\<lparr>isDownloadCancelled := True\<rparr> else st)
      in st)"

text \<open>
  \<open>for (let i = 0; i < episodeUrlsToProcess.length; i++)\<close>: the second argument is the
  index \<open>i\<close>, the third the URLs from index \<open>i\<close> on. The flag is read at the head of each
  pass and nowhere else.
\<close>

fun download_loop :: "job_env \<Rightarrow> bool \<Rightarrow> nat \<Rightarrow> jsstring list \<Rightarrow> job_state \<Rightarrow> job_state" where
  "download_loop env saveAsZip i [] st = st"
| "download_loop env saveAsZip i (episodeUrl # rest) st =
     (if isDownloadCancelled st then st
      else download_loop env saveAsZip (i + 1) rest (iteration env saveAsZip i episodeUrl st))"

text \<open>
  The states at the head of the loop, from the first check of the condition to the exit:
  the same recursion, keeping every state it passes.
\<close>

fun loop_states :: "job_env \<Rightarrow> bool \<Rightarrow> nat \<Rightarrow> jsstring list \<Rightarrow> job_state \<Rightarrow> job_state list" where
  "loop_states env saveAsZip i [] st = [st]"
| "loop_states env saveAsZip i (episodeUrl # rest) st =
     (if isDownloadCancelled st then [st]
      else st # loop_states env saveAsZip (i + 1) rest (iteration env saveAsZip i episodeUrl st))"

text \<open>\<open>completedEpisodes + skippedChapters.length + incompleteChapters.length\<close>\<close>

definition handled :: "job_state \<Rightarrow> nat" where
  "handled st = completedEpisodes st + length (skippedChapters st) + length (incompleteChapters st)"

section \<open>The whole job\<close>

text \<open>
  The wait for JSZip: \<open>while (typeof window.JSZip === 'undefined' && elapsedWaitTime <
  MAX_WAIT_TIME)\<close>, each pass waiting \<open>CHECK_INTERVAL\<close> milliseconds. The result is the
  time waited when the loop ends.
\<close>

definition MAX_WAIT_TIME :: nat where
  "MAX_WAIT_TIME = 5000"

definition CHECK_INTERVAL :: nat where
  "CHECK_INTERVAL = 100"

function wait_for_jszip :: "(nat \<Rightarrow> bool) \<Rightarrow> nat \<Rightarrow> nat" where
  "wait_for_jszip defined elapsedWaitTime =
     (if \<not> defined elapsedWaitTime \<and> elapsedWaitTime < MAX_WAIT_TIME
      then wait_for_jszip defined (elapsedWaitTime + CHECK_INTERVAL)
      else elapsedWaitTime)"
  by pat_completeness auto
termination
  by (relation "measure (\<lambda>(defined, e). MAX_WAIT_TIME - e)")
    (auto simp: MAX_WAIT_TIME_def CHECK_INTERVAL_def)

declare wait_for_jszip.simps [simp del]

text \<open>
  The \<open>try\<close> block that loads JSZip: \<open>Throws\<close> with the message of the error that reaches
  the \<open>catch\<close>, or the new, empty archive.
\<close>

definition load_jszip :: "job_env \<Rightarrow> (jsstring \<rightharpoonup> jsstring) attempt" where
  "load_jszip env =
     (if \<not> script_loads env then
        Throws (js ''Failed to load script: https://cdnjs.cloudflare.com/ajax/libs/jszip/3.10.1/jszip.min.js'')
      else if \<not> jszip_defined env (wait_for_jszip (jszip_defined env) 0) then
        Throws (js ''JSZip did not become defined within the expected time.'')
      else Returns Map.empty)"

text \<open>
  How the function ends: in the \<open>catch\<close> of the JSZip load, with the title of the
  notification it shows and none of the job's variables created; after a cancelled loop;
  or with the report written.

  After a cancelled loop the function does not return normally. The flag is set by the
  confirm handler alone, and that handler also takes the dialog out of the document
  (\<open>document.body.removeChild(modal)\<close>). So when the function, having shown its
  notification, removes the dialog once more, \<open>removeChild\<close> throws a \<open>NotFoundError\<close>
  and the promise of the function is rejected. The second argument of \<open>Rejected\<close> is the
  name of that error.
\<close>

datatype job_result =
    SetupFailure jsstring
  | Rejected job_state jsstring
  | Completed job_state jsstring jsstring \<comment> \<open>final state, \<open>reportFileName\<close>, \<open>reportContent\<close>\<close>

definition initial_state :: "jsstring \<Rightarrow> (jsstring \<rightharpoonup> jsstring) option \<Rightarrow> job_state" where
  "initial_state title z =
     \<lparr>novelText = title @ [nl, nl] @ js ''Downloaded with novel-dl,'' @ [nl]
        @ js ''https://github.com/yeorinhieut/novel-dl'' @ [nl, nl],
      zip = z,
      completedEpisodes = 0,
      skippedChapters = [],
      incompleteChapters = [],
      isDownloadCancelled = False,
      requested = []\<rparr>"

text \<open>
  Everything behind the JSZip load. \<open>originalFileNameForReport\<close> is tested for truth:
  \<open>null\<close> and the empty string, both modelled by the empty string, leave the name plain.
\<close>

definition run_job ::
  "job_env \<Rightarrow> jsstring \<Rightarrow> jsstring list \<Rightarrow> bool \<Rightarrow> jsstring
     \<Rightarrow> (jsstring \<rightharpoonup> jsstring) option \<Rightarrow> job_result" where
  "run_job env title episodeUrlsToProcess saveAsZip originalFileNameForReport z =
     (let st = download_loop env saveAsZip 0 episodeUrlsToProcess (initial_state title z)
      in if isDownloadCancelled st then Rejected st (js ''NotFoundError'')
         else
           (let report = reportContent (skippedChapters st) (incompleteChapters st);
                reportFileName =
                  sanitizeFilename title
                  @ (if originalFileNameForReport \<noteq> []
                     then js ''_retry_of_'' @ sanitizeFilename originalFileNameForReport
                     else [])
                  @ js ''_report.txt'';
                st = (if saveAsZip
                      then st\<lparr>zip := map_option (\<lambda>z. z(reportFileName \<mapsto> report)) (zip st)\<rparr>
                      else st)
            in Completed st reportFileName report))"

definition processDownloadCore ::
  "job_env \<Rightarrow> jsstring \<Rightarrow> jsstring list \<Rightarrow> bool \<Rightarrow> jsstring \<Rightarrow> job_result" where
  "processDownloadCore env title episodeUrlsToProcess saveAsZip originalFileNameForReport =
     (if saveAsZip then
        (case load_jszip env of
           Throws msg \<Rightarrow> SetupFailure (msg @ js ''ZIP Library Load Failed'')
         | Returns z \<Rightarrow>
             run_job env title episodeUrlsToProcess saveAsZip originalFileNameForReport (Some z))
      else run_job env title episodeUrlsToProcess saveAsZip originalFileNameForReport None)"

text \<open>What a finished call leaves behind: the job's variables, if it created them.\<close>

fun final_state :: "job_result \<Rightarrow> job_state option" where
  "final_state (SetupFailure t) = None"
| "final_state (Rejected st e) = Some st"
| "final_state (Completed st n r) = Some st"

section \<open>Notions the statements use\<close>

text \<open>
  From one state to the next exactly one of the three tallies grows, by one: the counter
  goes up, or one entry is appended to one of the two lists, and the other two stay.
\<close>

definition grows_by_one :: "job_state \<Rightarrow> job_state \<Rightarrow> bool" where
  "grows_by_one s s' =
     ((completedEpisodes s' = completedEpisodes s + 1
        \<and> skippedChapters s' = skippedChapters s
        \<and> incompleteChapters s' = incompleteChapters s)
      \<or> (completedEpisodes s' = completedEpisodes s
        \<and> length (skippedChapters s') = length (skippedChapters s) + 1
        \<and> butlast (skippedChapters s') = skippedChapters s
        \<and> incompleteChapters s' = incompleteChapters s)
      \<or> (completedEpisodes s' = completedEpisodes s
        \<and> skippedChapters s' = skippedChapters s
        \<and> length (incompleteChapters s') = length (incompleteChapters s) + 1
        \<and> butlast (incompleteChapters s') = incompleteChapters s))"

text \<open>The iteration during which the flag goes up.\<close>

fun cancel_iteration :: "cancel_point \<Rightarrow> nat option" where
  "cancel_iteration NoCancel = None"
| "cancel_iteration (DuringFetch i) = Some i"
| "cancel_iteration (DuringDelay i) = Some i"

text \<open>
  The number of items handled at the moment the flag goes up. During the fetch of
  iteration \<open>i\<close> the items before it are handled and item \<open>i\<close> is in flight; during the
  delay of iteration \<open>i\<close> item \<open>i\<close> is handled too.
\<close>

fun handled_when_raised :: "cancel_point \<Rightarrow> nat option" where
  "handled_when_raised NoCancel = None"
| "handled_when_raised (DuringFetch i) = Some i"
| "handled_when_raised (DuringDelay i) = Some (i + 1)"




section \<open>A sample job\<close>

text \<open>
  A page with a title element (found by the first title selector, no \<open>title\<close> attribute)
  and a content element (found by the first content selector).
\<close>

definition sample_page :: "jsstring \<Rightarrow> jsstring \<Rightarrow> document" where
  "sample_page heading html =
     (\<lambda>selector.
        if selector = js ''.toon-title''
        then Some \<lparr>title_attribute = None, textContent = heading, innerHTML = heading\<rparr>
        else if selector = js ''#novel_content''
        then Some \<lparr>title_attribute = None, textContent = html, innerHTML = html\<rparr>
        else None)"

text \<open>
  Five answers of the network, by iteration: a chapter titled \<open>a/b\<close>, a 403, a 500, a
  chapter titled \<open>a?b\<close>, and a fetch that throws.
\<close>

definition sample_network :: "nat \<Rightarrow> jsstring \<Rightarrow> response attempt" where
  "sample_network i u =
     (if i = 0 then Returns \<lparr>status = 200, body = Returns (sample_page (js ''a/b'') (js ''<p>one</p>''))\<rparr>
      else if i = 1 then Returns \<lparr>status = 403, body = Throws []\<rparr>
      else if i = 2 then Returns \<lparr>status = 500, body = Throws []\<rparr>
      else if i = 3 then Returns \<lparr>status = 200, body = Returns (sample_page (js ''a?b'') (js ''<p>two</p>''))\<rparr>
      else Throws (js ''Failed to fetch''))"

definition sample_urls :: "jsstring list" where
  "sample_urls =
     [js ''https://booktoki.com/novel/1'', js ''https://booktoki.com/novel/2'',
      js ''https://booktoki.com/novel/3'', js ''https://booktoki.com/novel/4'',
      js ''https://booktoki.com/novel/5'']"

definition sample_env :: "bool \<Rightarrow> cancel_point \<Rightarrow> job_env" where
  "sample_env loads c =
     \<lparr>script_loads = loads, jszip_defined = (\<lambda>ms. False), network = sample_network, cancel = c\<rparr>"



section \<open>Strings: basic facts\<close>

lemma startsWith_append [simp]: "startsWith (p @ t) p"
  by (simp add: startsWith_def)

lemma startsWith_iff: "startsWith s p \<longleftrightarrow> (\<exists>t. s = p @ t)"
proof
  assume "startsWith s p"
  then have "s = p @ drop (length p) s"
    by (metis append_take_drop_id startsWith_def)
  then show "\<exists>t. s = p @ t" ..
next
  assume "\<exists>t. s = p @ t"
  then show "startsWith s p" by auto
qed

lemma split_Nil [simp]: "sep \<noteq> [] \<Longrightarrow> split sep [] = [[]]"
  by (simp add: split.simps)

lemma split_ne_Nil: "sep \<noteq> [] \<Longrightarrow> split sep s \<noteq> []"
  by (induction sep s rule: split.induct) (subst split.simps, simp split: list.splits)

lemma split_nl_Cons:
  "split [nl] (c # cs) =
     (if c = nl then [] # split [nl] cs
      else (case split [nl] cs of [] \<Rightarrow> [[c]] | p # ps \<Rightarrow> (c # p) # ps))"
  by (subst split.simps) (simp add: startsWith_def split: list.splits)

lemma split_nl_line:
  "nl \<notin> set l \<Longrightarrow> split [nl] (l @ nl # rest) = l # split [nl] rest"
  by (induction l) (auto simp: split_nl_Cons)

lemma split_nl_last: "nl \<notin> set l \<Longrightarrow> split [nl] l = [l]"
  by (induction l) (auto simp: split_nl_Cons)

lemma split_nl_join:
  "ls \<noteq> [] \<Longrightarrow> \<forall>l \<in> set ls. nl \<notin> set l \<Longrightarrow> split [nl] (join [nl] ls) = ls"
proof (induction "[nl]" ls rule: join.induct)
  case (3 x y ys)
  then show ?case by (simp add: split_nl_line)
qed (simp_all add: split_nl_last)

section \<open>Report parser: what it returns\<close>

lemma js_http: "js ''http'' = [104,116,116,112]" "js ''s'' = [115]" "js ''://'' = [58,47,47]"
  "js ''http://'' = [104,116,116,112,58,47,47]" "js ''https://'' = [104,116,116,112,115,58,47,47]"
  "js ''URL: '' = [85, 82, 76, 58, 32]"
  by (simp_all add: js_def)

lemma match_scheme_Some:
  "match_scheme r = Some n \<Longrightarrow> take n r = js ''http://'' \<or> take n r = js ''https://''"
  unfolding match_scheme_def Let_def
  by (auto simp: startsWith_iff js_http split: if_splits)

lemma not_ws_scheme: "c \<in> set (js ''http://'') \<or> c \<in> set (js ''https://'') \<Longrightarrow> \<not> isWhiteSpace c"
  by (auto simp: js_http isWhiteSpace_def)

lemma has_scheme_append:
  "p = js ''http://'' \<or> p = js ''https://'' \<Longrightarrow> has_scheme (p @ t)"
  by (auto simp: has_scheme_def)

lemma match_url_at_Some:
  assumes "match_url_at s = Some u"
  shows "has_scheme u" and "\<forall>c \<in> set u. \<not> isWhiteSpace c"
    and "startsWith s (js ''URL: '')" and "has_scheme (drop 5 s)"
proof -
  from assms have m: "startsWith s (js ''URL: '')"
    by (simp add: match_url_at_def split: if_splits)
  from assms m obtain n where n: "match_scheme (drop 5 s) = Some n"
    and u: "u = take n (drop 5 s) @ takeWhile (\<lambda>c. \<not> isWhiteSpace c) (drop n (drop 5 s))"
    by (auto simp: match_url_at_def Let_def split: if_splits option.splits)
  from match_scheme_Some[OF n]
  have p: "take n (drop 5 s) = js ''http://'' \<or> take n (drop 5 s) = js ''https://''" .
  show "startsWith s (js ''URL: '')" by (rule m)
  show "has_scheme u" unfolding u by (rule has_scheme_append[OF p])
  show "\<forall>c \<in> set u. \<not> isWhiteSpace c"
    unfolding u using p not_ws_scheme by (auto dest: set_takeWhileD)
  have "has_scheme (take n (drop 5 s) @ drop n (drop 5 s))"
    by (rule has_scheme_append[OF p])
  then show "has_scheme (drop 5 s)" by (simp only: append_take_drop_id)
qed

lemma match_url_Some:
  "match_url s = Some u \<Longrightarrow> has_scheme u \<and> (\<forall>c \<in> set u. \<not> isWhiteSpace c)"
  by (induction s) (auto split: option.splits dest: match_url_at_Some)

lemma match_url_at_Nil [simp]: "match_url_at [] = None"
  by (simp add: match_url_at_def startsWith_def js_http)

lemma match_url_None:
  "\<forall>r \<in> set (after_marker (js ''URL: '') line). \<not> has_scheme r \<Longrightarrow> match_url line = None"
proof (induction line)
  case Nil
  then show ?case by simp
next
  case (Cons c cs)
  have "match_url_at (c # cs) = None"
  proof (cases "match_url_at (c # cs)")
    case (Some u)
    from match_url_at_Some(3,4)[OF Some] Cons.prems show ?thesis
      by (simp add: js_http eval_nat_numeral)
  qed simp
  with Cons show ?case by simp
qed

lemma collect_urls_acc: "collect_urls acc ls = acc @ collect_urls [] ls"
proof (induction ls arbitrary: acc)
  case (Cons l ls)
  show ?case
    using Cons[of "acc @ [the (match_url l)]"] Cons[of "[the (match_url l)]"] Cons[of acc]
    by (auto split: option.splits)
qed simp

lemma collect_urls_append:
  "collect_urls [] (xs @ ys) = collect_urls [] xs @ collect_urls [] ys"
proof (induction xs)
  case (Cons l ls)
  then show ?case
    using collect_urls_acc[of "[the (match_url l)]"]
    by (auto split: option.splits)
qed simp

lemma collect_urls_set:
  "u \<in> set (collect_urls [] ls) \<Longrightarrow> \<exists>l \<in> set ls. match_url l = Some u"
proof (induction ls)
  case (Cons l ls)
  then show ?case
    using collect_urls_acc[of "[the (match_url l)]" ls]
    by (auto split: option.splits if_splits)
qed simp

lemma parseReportFile_join:
  "ls \<noteq> [] \<Longrightarrow> \<forall>l \<in> set ls. nl \<notin> set l \<Longrightarrow> parseReportFile (join [nl] ls) = collect_urls [] ls"
  by (simp add: parseReportFile_def split_nl_join)

lemma parseReportFile_Nil [simp]: "parseReportFile [] = []"
  by (simp add: parseReportFile_def)

text \<open>
  Claim C9, amended. Every URL that \<open>parseReportFile\<close> returns begins with \<open>http://\<close> or
  \<open>https://\<close> and holds no whitespace character. A line in which no occurrence of the
  marker \<open>URL: \<close> is followed by such a scheme contributes nothing: the result for a file
  with that line is the result for the file without it.
\<close>

theorem parseReportFile_urls_wellformed:
  "(\<forall>u \<in> set (parseReportFile content). has_scheme u \<and> (\<forall>c \<in> set u. \<not> isWhiteSpace c))
   \<and> ((\<forall>r \<in> set (after_marker (js ''URL: '') line). \<not> has_scheme r)
        \<and> (\<forall>l \<in> set (before @ [line] @ after). nl \<notin> set l)
      \<longrightarrow> parseReportFile (join [nl] (before @ [line] @ after))
          = parseReportFile (join [nl] (before @ after)))"
proof (rule conjI)
  show "\<forall>u \<in> set (parseReportFile content). has_scheme u \<and> (\<forall>c \<in> set u. \<not> isWhiteSpace c)"
  proof
    fix u assume "u \<in> set (parseReportFile content)"
    then obtain l where "match_url l = Some u"
      unfolding parseReportFile_def by (blast dest: collect_urls_set)
    then show "has_scheme u \<and> (\<forall>c \<in> set u. \<not> isWhiteSpace c)"
      by (rule match_url_Some)
  qed
next
  show "(\<forall>r \<in> set (after_marker (js ''URL: '') line). \<not> has_scheme r)
        \<and> (\<forall>l \<in> set (before @ [line] @ after). nl \<notin> set l)
      \<longrightarrow> parseReportFile (join [nl] (before @ [line] @ after))
          = parseReportFile (join [nl] (before @ after))"
  proof
  assume h: "(\<forall>r \<in> set (after_marker (js ''URL: '') line). \<not> has_scheme r)
        \<and> (\<forall>l \<in> set (before @ [line] @ after). nl \<notin> set l)"
  then have none: "match_url line = None"
    by (simp add: match_url_None)
  have "parseReportFile (join [nl] (before @ [line] @ after))
      = collect_urls [] (before @ [line] @ after)"
    using h by (intro parseReportFile_join) auto
  also have "\<dots> = collect_urls [] before @ collect_urls [] after"
    using none by (simp add: collect_urls_append)
  also have "\<dots> = parseReportFile (join [nl] (before @ after))"
  proof (cases "before @ after = []")
    case True
    then show ?thesis by simp
  next
    case False
    then have "parseReportFile (join [nl] (before @ after)) = collect_urls [] (before @ after)"
      using h by (intro parseReportFile_join) auto
    then show ?thesis by (simp add: collect_urls_append)
  qed
  finally show "parseReportFile (join [nl] (before @ [line] @ after))
          = parseReportFile (join [nl] (before @ after))" .
  qed
qed

theorem parseReportFile_urls_wellformed_witness:
  "parseReportFile (js ''URL: https://booktoki.com/novel/7 (Reason: CAPTCHA (403))'')
     = [js ''https://booktoki.com/novel/7'']
   \<and> has_scheme (js ''https://booktoki.com/novel/7'')
   \<and> list_all (\<lambda>c. \<not> isWhiteSpace c) (js ''https://booktoki.com/novel/7'')
   \<and> list_all (\<lambda>r. \<not> has_scheme r)
        (after_marker (js ''URL: '') (js ''URL: ftp://host/ch2 (Reason: x)''))
   \<and> parseReportFile (join [nl] ([js ''URL: http://host/ch1 (Reason: x)'']
         @ [js ''URL: ftp://host/ch2 (Reason: x)''] @ [js ''URL: http://host/ch3 (Reason: x)'']))
     = parseReportFile (join [nl] ([js ''URL: http://host/ch1 (Reason: x)'']
         @ [js ''URL: http://host/ch3 (Reason: x)'']))"
proof -
  have c: "parseReportFile (js ''URL: https://booktoki.com/novel/7 (Reason: CAPTCHA (403))'')
     = [js ''https://booktoki.com/novel/7'']"
    by code_simp
  have h: "(\<forall>r \<in> set (after_marker (js ''URL: '') (js ''URL: ftp://host/ch2 (Reason: x)'')). \<not> has_scheme r)
     \<and> (\<forall>l \<in> set ([js ''URL: http://host/ch1 (Reason: x)'']
         @ [js ''URL: ftp://host/ch2 (Reason: x)''] @ [js ''URL: http://host/ch3 (Reason: x)'']). nl \<notin> set l)"
    by code_simp
  from parseReportFile_urls_wellformed
         [of "js ''URL: https://booktoki.com/novel/7 (Reason: CAPTCHA (403))''"
             "js ''URL: ftp://host/ch2 (Reason: x)''"
             "[js ''URL: http://host/ch1 (Reason: x)'']"
             "[js ''URL: http://host/ch3 (Reason: x)'']"] c h
  show ?thesis by (simp add: list_all_iff)
qed

text \<open>
  The claim as written fails for a line with the marker twice: the text behind the first
  marker begins with no such scheme, yet the line contributes the URL behind the second,
  the expression not being anchored.
\<close>

theorem parseReportFile_urls_wellformed_counterexample:
  "startsWith (js ''URL: ftp://x URL: https://y/z end'') (js ''URL: '')
   \<and> \<not> has_scheme (drop 5 (js ''URL: ftp://x URL: https://y/z end''))
   \<and> parseReportFile (js ''URL: ftp://x URL: https://y/z end'') = [js ''https://y/z'']"
  by code_simp

section \<open>Report round trip\<close>

lemma join_nl_flat: "ls \<noteq> [] \<Longrightarrow> join [nl] ls @ [nl] = concat (map (\<lambda>l. l @ [nl]) ls)"
  by (induction "[nl]" ls rule: join.induct) simp_all

lemma split_nl_flat:
  "\<forall>l \<in> set ls. nl \<notin> set l \<Longrightarrow> split [nl] (concat (map (\<lambda>l. l @ [nl]) ls)) = ls @ [[]]"
  by (induction ls) (simp_all add: split_nl_line)

lemma parse_flat:
  "\<forall>l \<in> set ls. nl \<notin> set l \<Longrightarrow>
   parseReportFile (concat (map (\<lambda>l. l @ [nl]) ls)) = collect_urls [] ls"
  by (simp add: parseReportFile_def split_nl_flat collect_urls_append)

lemma js_lits: "js '' (Reason: '' = [32, 40, 82, 101, 97, 115, 111, 110, 58, 32]"
  by (simp add: js_def)

lemma match_scheme_ok:
  assumes "report_url_ok u"
  shows "\<exists>n. match_scheme (u @ t) = Some n \<and> n < length u \<and> take n (u @ t) = take n u"
proof -
  from assms consider (a) b where "u = js ''http://'' @ b" "b \<noteq> []"
    | (b) b where "u = js ''https://'' @ b" "b \<noteq> []"
    by (auto simp: report_url_ok_def startsWith_iff js_http)
  then show ?thesis
  proof cases
    case a
    then show ?thesis
      by (simp add: match_scheme_def js_http startsWith_def)
  next
    case b
    then show ?thesis
      by (simp add: match_scheme_def js_http startsWith_def)
  qed
qed

lemma match_url_at_marker:
  "match_url_at (js ''URL: '' @ r) =
     (case match_scheme r of
        None \<Rightarrow> None
      | Some n \<Rightarrow>
          (let body = takeWhile (\<lambda>c. \<not> isWhiteSpace c) (drop n r)
           in if body = [] then None else Some (take n r @ body)))"
proof -
  have "drop 5 (js ''URL: '' @ r) = r" by (simp add: js_def)
  then show ?thesis by (simp add: match_url_at_def)
qed

lemma match_url_report_line:
  assumes "report_url_ok (url item)"
  shows "match_url (report_line item) = Some (url item)"
proof -
  let ?u = "url item"
  let ?t = "js '' (Reason: '' @ reason item @ js '')''"
  from match_scheme_ok[OF assms, of ?t] obtain n where
    n: "match_scheme (?u @ ?t) = Some n" "n < length ?u" "take n (?u @ ?t) = take n ?u"
    by blast
  have nows: "\<forall>c \<in> set (drop n ?u). \<not> isWhiteSpace c"
    using assms by (auto simp: report_url_ok_def list_all_iff dest: in_set_dropD)
  have tw: "takeWhile (\<lambda>c. \<not> isWhiteSpace c) (drop n (?u @ ?t)) = drop n ?u"
    using n(2) nows by (simp add: js_lits isWhiteSpace_def takeWhile_append2)
  have ne: "drop n ?u \<noteq> []" using n(2) by simp
  have "match_url_at (js ''URL: '' @ ?u @ ?t) = Some ?u"
    using n tw ne by (simp add: match_url_at_marker Let_def)
  then show ?thesis
    by (simp add: report_line_def js_http del: append_assoc)
qed

lemma report_line_no_nl: "report_entry_ok item \<Longrightarrow> nl \<notin> set (report_line item)"
  by (auto simp: report_entry_ok_def report_url_ok_def report_line_def list_all_iff
      isWhiteSpace_def nl_def js_def)

lemma collect_report_lines:
  "list_all report_entry_ok es \<Longrightarrow> collect_urls [] (map report_line es) = map url es"
proof (induction es)
  case (Cons e es)
  then have "match_url (report_line e) = Some (url e)" "url e \<noteq> []"
    by (auto simp: report_entry_ok_def report_url_ok_def intro: match_url_report_line)
  with Cons show ?case
    using collect_urls_acc[of "[url e]" "map report_line es"] by simp
qed simp

lemma fixed_lines_no_url:
  "match_url (js ''--- Skipped Chapters (CAPTCHA / 403) ---'') = None"
  "match_url (js ''No chapters skipped due to CAPTCHA.'') = None"
  "match_url (js ''--- Incomplete/Failed Chapters ---'') = None"
  "match_url (js ''No chapters incomplete or failed.'') = None"
  by code_simp+

lemma fixed_lines_no_nl:
  "nl \<notin> set (js ''--- Skipped Chapters (CAPTCHA / 403) ---'')"
  "nl \<notin> set (js ''No chapters skipped due to CAPTCHA.'')"
  "nl \<notin> set (js ''--- Incomplete/Failed Chapters ---'')"
  "nl \<notin> set (js ''No chapters incomplete or failed.'')"
  by code_simp+

lemma reportContent_lines:
  "reportContent sk inc =
     concat (map (\<lambda>l. l @ [nl])
       ([js ''--- Skipped Chapters (CAPTCHA / 403) ---'']
        @ report_section (js ''No chapters skipped due to CAPTCHA.'') sk
        @ [[], js ''--- Incomplete/Failed Chapters ---'']
        @ report_section (js ''No chapters incomplete or failed.'') inc))"
  by (simp add: reportContent_def report_section_def join_nl_flat [symmetric])

lemma collect_report_section:
  "list_all report_entry_ok es \<Longrightarrow> match_url none = None \<Longrightarrow>
   collect_urls [] (report_section none es) = map url es"
  by (simp add: report_section_def collect_report_lines)

lemma report_section_no_nl:
  "list_all report_entry_ok es \<Longrightarrow> nl \<notin> set none \<Longrightarrow>
   \<forall>l \<in> set (report_section none es). nl \<notin> set l"
  by (auto simp: report_section_def list_all_iff report_line_no_nl)

text \<open>
  Claim C1, amended. When every URL of the report begins with \<open>http://\<close> or \<open>https://\<close>,
  goes on for at least one character and holds no whitespace, and no reason holds a line
  break, parsing the report text gives exactly the URLs of the skipped entries followed by
  those of the incomplete entries, in order and with duplicates.
\<close>

theorem report_roundtrip:
  assumes "list_all report_entry_ok skipped"
    and "list_all report_entry_ok incomplete"
  shows "parseReportFile (reportContent skipped incomplete)
       = map url skipped @ map url incomplete"
proof -
  let ?ls = "[js ''--- Skipped Chapters (CAPTCHA / 403) ---'']
        @ report_section (js ''No chapters skipped due to CAPTCHA.'') skipped
        @ [[], js ''--- Incomplete/Failed Chapters ---'']
        @ report_section (js ''No chapters incomplete or failed.'') incomplete"
  have "\<forall>l \<in> set ?ls. nl \<notin> set l"
    using report_section_no_nl[OF assms(1) fixed_lines_no_nl(2)]
      report_section_no_nl[OF assms(2) fixed_lines_no_nl(4)] fixed_lines_no_nl(1,3)
    by auto
  then have "parseReportFile (reportContent skipped incomplete)
      = collect_urls [] ?ls"
    unfolding reportContent_lines by (rule parse_flat)
  also have "\<dots> = map url skipped @ map url incomplete"
    using collect_report_section[OF assms(1) fixed_lines_no_url(2)]
      collect_report_section[OF assms(2) fixed_lines_no_url(4)] fixed_lines_no_url(1,3)
    by (simp add: collect_urls_append)
  finally show ?thesis .
qed

theorem report_roundtrip_witness:
  "parseReportFile (reportContent
      [\<lparr>url = js ''https://booktoki.com/novel/1'', reason = js ''CAPTCHA (403)''\<rparr>]
      [\<lparr>url = js ''https://booktoki.com/novel/2'', reason = js ''Network Error (500)''\<rparr>,
       \<lparr>url = js ''https://booktoki.com/novel/2'', reason = js ''No Content Found''\<rparr>])
   = [js ''https://booktoki.com/novel/1'', js ''https://booktoki.com/novel/2'',
      js ''https://booktoki.com/novel/2'']"
proof -
  have h1: "list_all report_entry_ok
      [\<lparr>url = js ''https://booktoki.com/novel/1'', reason = js ''CAPTCHA (403)''\<rparr>]"
    by code_simp
  have h2: "list_all report_entry_ok
      [\<lparr>url = js ''https://booktoki.com/novel/2'', reason = js ''Network Error (500)''\<rparr>,
       \<lparr>url = js ''https://booktoki.com/novel/2'', reason = js ''No Content Found''\<rparr>]"
    by code_simp
  from report_roundtrip [OF h1 h2] show ?thesis by simp
qed

text \<open>
  The claim as written, for every report, fails: a URL with a space in it is cut at the
  space when the report is read back, and a reason with a line break in it can bring a
  URL of its own.
\<close>

theorem report_roundtrip_counterexample:
  "parseReportFile (reportContent
      [\<lparr>url = js ''https://booktoki.com/novel/1?t=a b'', reason = js ''CAPTCHA (403)''\<rparr>] [])
     = [js ''https://booktoki.com/novel/1?t=a'']
   \<and> parseReportFile (reportContent
      [\<lparr>url = js ''https://booktoki.com/novel/1?t=a b'', reason = js ''CAPTCHA (403)''\<rparr>] [])
     \<noteq> map url [\<lparr>url = js ''https://booktoki.com/novel/1?t=a b'',
                    reason = js ''CAPTCHA (403)''\<rparr>] @ map url []
   \<and> parseReportFile (reportContent []
      [\<lparr>url = js ''https://booktoki.com/novel/2'',
        reason = js ''Fetch Error: see'' @ [nl] @ js ''URL: https://example.org/x''\<rparr>])
     = [js ''https://booktoki.com/novel/2'', js ''https://example.org/x)'']"
  by code_simp

section \<open>Content normalisation: line breaks\<close>

lemma lead_simps [simp]:
  "lead [] = 0" "lead (nl # s) = Suc (lead s)" "c \<noteq> nl \<Longrightarrow> lead (c # s) = 0"
  by (simp_all add: lead_def)

lemma lead_drop: "lead (drop (lead s) s) = 0"
  unfolding lead_def by (induction s) auto

lemma startsWith_nl3: "startsWith s [nl, nl, nl] \<longleftrightarrow> 3 \<le> lead s"
proof (cases s)
  case (Cons a s1)
  show ?thesis
  proof (cases s1)
    case Nil with Cons show ?thesis by (cases "a = nl") (auto simp: startsWith_def)
  next
    case (Cons b s2)
    note c2 = this
    show ?thesis
    proof (cases s2)
      case Nil with c2 \<open>s = a # s1\<close> show ?thesis
        by (cases "a = nl"; cases "b = nl") (auto simp: startsWith_def)
    next
      case (Cons c s3)
      with c2 \<open>s = a # s1\<close> show ?thesis
        by (cases "a = nl"; cases "b = nl"; cases "c = nl") (auto simp: startsWith_def)
    qed
  qed
qed (simp add: startsWith_def)

lemma match_run_nl: "match_run nl 3 s = (if 3 \<le> lead s then Some (lead s) else None)"
  by (simp add: match_run_def lead_def Let_def)

lemma collapse_newlines:
  "lead (replace_all (match_run nl 3) [nl, nl] s) = (if 3 \<le> lead s then 2 else lead s)
   \<and> \<not> includes_str (replace_all (match_run nl 3) [nl, nl] s) [nl, nl, nl]"
proof (induction s rule: length_induct)
  case (1 s)
  let ?R = "replace_all (match_run nl 3) [nl, nl]"
  show ?case
  proof (cases s)
    case Nil
    then show ?thesis by (simp add: replace_all.simps match_run_nl)
  next
    case (Cons c cs)
    show ?thesis
    proof (cases "3 \<le> lead s")
      case True
      let ?t = "drop (lead s) s"
      have R: "?R s = nl # nl # ?R ?t"
        using True Cons by (subst replace_all.simps) (simp add: match_run_nl)
      have "length ?t < length s" using True Cons by simp
      with 1 have ih: "lead (?R ?t) = (if 3 \<le> lead ?t then 2 else lead ?t)"
        "\<not> includes_str (?R ?t) [nl, nl, nl]" by blast+
      from ih(1) have l0: "lead (?R ?t) = 0" by (simp add: lead_drop)
      show ?thesis using True l0 ih(2) unfolding R
        by (simp add: startsWith_nl3)
    next
      case False
      have R: "?R s = c # ?R cs"
        using False Cons by (subst replace_all.simps) (simp add: match_run_nl)
      have "length cs < length s" using Cons by simp
      with 1 have ih: "lead (?R cs) = (if 3 \<le> lead cs then 2 else lead cs)"
        "\<not> includes_str (?R cs) [nl, nl, nl]" by blast+
      show ?thesis
      proof (cases "c = nl")
        case True
        with False Cons have "lead cs < 2" by simp
        with ih True False Cons show ?thesis unfolding R
          by (simp add: startsWith_nl3)
      next
        case c: False
        with ih Cons show ?thesis unfolding R
          by (simp add: startsWith_nl3)
      qed
    qed
  qed
qed

lemma cleanText_unfold:
  "\<exists>t. cleanText s = replace_all (match_run nl 3) [nl, nl] t"
  unfolding cleanText_def Let_def by blast

lemma replace_all_no_match:
  "\<not> includes_str s [nl, nl, nl] \<Longrightarrow> replace_all (match_run nl 3) [nl, nl] s = s"
proof (induction s)
  case Nil
  then show ?case by (simp add: replace_all.simps match_run_nl)
next
  case (Cons c cs)
  then have "\<not> 3 \<le> lead (c # cs)" "\<not> includes_str cs [nl, nl, nl]"
    by (simp_all add: startsWith_nl3)
  note h = this
  from h(1) have "replace_all (match_run nl 3) [nl, nl] (c # cs)
      = c # replace_all (match_run nl 3) [nl, nl] cs"
    by (subst replace_all.simps) (simp add: match_run_nl)
  moreover from h(2) have "replace_all (match_run nl 3) [nl, nl] cs = cs"
    by (rule Cons.IH)
  ultimately show ?case by simp
qed

lemma includes_nl3_line:
  assumes "nl \<notin> set x" "\<not> includes_str r [nl, nl, nl]" "lead r \<le> 2"
  shows "\<not> includes_str (x @ r) [nl, nl, nl]"
  using assms by (induction x) (auto simp: startsWith_nl3)

lemma join_paragraphs:
  assumes "list_all (\<lambda>p. p \<noteq> [] \<and> nl \<notin> set p) ps"
  shows "\<not> includes_str (join [nl, nl] ps) [nl, nl, nl] \<and> lead (join [nl, nl] ps) = 0"
  using assms
proof (induction "[nl, nl]" ps rule: join.induct)
  case 1
  then show ?case by simp
next
  case (2 x)
  then have "nl \<notin> set x" "x \<noteq> []" by simp_all
  then show ?case
    using includes_nl3_line[of x "[]"] by (cases x) auto
next
  case (3 x y ys)
  then have x: "nl \<notin> set x" "x \<noteq> []" by simp_all
  from 3 have ih: "\<not> includes_str (join [nl, nl] (y # ys)) [nl, nl, nl]"
    "lead (join [nl, nl] (y # ys)) = 0" by simp_all
  have "\<not> includes_str (nl # nl # join [nl, nl] (y # ys)) [nl, nl, nl]"
    using ih by (simp add: startsWith_nl3)
  moreover have "lead (nl # nl # join [nl, nl] (y # ys)) \<le> 2"
    using ih by simp
  ultimately have "\<not> includes_str (x @ nl # nl # join [nl, nl] (y # ys)) [nl, nl, nl]"
    using x(1) by (intro includes_nl3_line)
  moreover have "lead (x @ nl # nl # join [nl, nl] (y # ys)) = 0"
    using x by (cases x) auto
  ultimately show ?case by simp
qed

lemma split_nl_pieces: "p \<in> set (split [nl] s) \<Longrightarrow> nl \<notin> set p"
proof (induction s arbitrary: p)
  case Nil
  then show ?case by simp
next
  case (Cons c cs)
  then show ?case
    by (auto simp: split_nl_Cons split: if_splits list.splits)
qed

lemma set_trim: "set (trim p) \<subseteq> set p"
  unfolding trim_def by (auto dest!: set_dropWhileD)

lemma cleanText_paragraph_list:
  "\<exists>ps. cleanText text = join [nl, nl] ps \<and> list_all (\<lambda>p. p \<noteq> [] \<and> nl \<notin> set p) ps"
proof -
  obtain t where c: "cleanText text =
      replace_all (match_run nl 3) [nl, nl]
        (join [nl, nl] (filter (\<lambda>line. length line > 0) (map (\<lambda>line. trim line) (split [nl] t))))"
    unfolding cleanText_def Let_def by blast
  let ?ps = "filter (\<lambda>line. length line > 0) (map (\<lambda>line. trim line) (split [nl] t))"
  have ps: "list_all (\<lambda>p. p \<noteq> [] \<and> nl \<notin> set p) ?ps"
    using split_nl_pieces set_trim by (fastforce simp: list_all_iff)
  from join_paragraphs[OF ps] have "cleanText text = join [nl, nl] ?ps"
    unfolding c by (intro replace_all_no_match) simp
  with ps show ?thesis by blast
qed

text \<open>
  Claim C7. \<open>cleanText\<close> turns \<open><p>Hello</p><br/><img src=x>\<close> into \<open>Hello\<close>, one
  empty line and \<open>[Image Skipped]\<close>, with no markup left. For every input the result
  holds no three line breaks in a row: it is a list of paragraphs, none empty and none
  with a line break inside, joined by two line breaks.
\<close>

theorem cleanText_paragraphs:
  "cleanText (js ''<p>Hello</p><br/><img src=x>'') = js ''Hello'' @ [nl, nl] @ js ''[Image Skipped]''
   \<and> \<not> includes_str (cleanText text) [nl, nl, nl]
   \<and> (\<exists>ps. cleanText text = join [nl, nl] ps
          \<and> list_all (\<lambda>p. p \<noteq> [] \<and> nl \<notin> set p) ps)"
proof (intro conjI)
  show "cleanText (js ''<p>Hello</p><br/><img src=x>'') = js ''Hello'' @ [nl, nl] @ js ''[Image Skipped]''"
    by code_simp
  obtain t where "cleanText text = replace_all (match_run nl 3) [nl, nl] t"
    using cleanText_unfold by blast
  then show "\<not> includes_str (cleanText text) [nl, nl, nl]"
    using collapse_newlines[of t] by simp
  show "\<exists>ps. cleanText text = join [nl, nl] ps
          \<and> list_all (\<lambda>p. p \<noteq> [] \<and> nl \<notin> set p) ps"
    by (rule cleanText_paragraph_list)
qed

section \<open>Progress tracker without items\<close>

lemma dbl_0 [simp]: "dbl 0 = 0"
  by (simp add: dbl_def)

lemma progress_zero_total:
  "totalItems tr = 0 \<Longrightarrow>
   progress (snd (update tr now c)) = (if c = 0 then js ''NaN'' else js ''Infinity'')"
  by (simp add: update_def Let_def js_divide_def js_times_def toFixed_def)

lemma formatTime_0: "formatTime 0 = js ''0s''"
  by (simp add: formatTime_def show_int_def show_nat.simps js_def)

lemma remaining_zero_total_0:
  "totalItems tr = 0 \<Longrightarrow> remaining (snd (update tr now 0)) = js ''0s''"
  by (simp add: update_def Let_def formatTime_0)

text \<open>
  The rounding of doubles shows in what the tracker prints: 23 of 80 items are
  \<open>28.749999999999996\<close> percent, printed as \<open>28.7\<close>.
\<close>

lemma update_rounds_as_doubles:
  "snd (update (createProgressTracker 80 0) 178131 23)
     = \<lparr>progress = js ''28.7'', remaining = js ''7m 21s'', elapsed = js ''2m 58s'',
        speed = js ''0.13''\<rparr>"
  by code_simp

text \<open>
  Claim C5, amended. A tracker made with \<open>totalItems = 0\<close> never reports 100 percent:
  an update reports the percentage \<open>NaN\<close> for \<open>completedItems = 0\<close> and \<open>Infinity\<close> for
  \<open>completedItems > 0\<close>. The remaining time is \<open>0s\<close> on \<open>update(0)\<close>. With completed items
  it need not be: a new tracker updated with one item after 5000 ms reports \<open>-5s\<close>.
\<close>

theorem tracker_zero_total:
  "(totalItems tr = 0 \<longrightarrow>
     progress (snd (update tr now c)) = (if c = 0 then js ''NaN'' else js ''Infinity'')
     \<and> progress (snd (update tr now c)) \<noteq> js ''100.0''
     \<and> remaining (snd (update tr now 0)) = js ''0s'')
   \<and> remaining (snd (update (createProgressTracker 0 0) 5000 1)) = js ''-5s''"
proof (intro conjI impI)
  show "remaining (snd (update (createProgressTracker 0 0) 5000 1)) = js ''-5s''"
    by code_simp
next
  assume z: "totalItems tr = 0"
  show "progress (snd (update tr now c)) = (if c = 0 then js ''NaN'' else js ''Infinity'')"
    by (rule progress_zero_total[OF z])
  have "js ''NaN'' \<noteq> js ''100.0''" "js ''Infinity'' \<noteq> js ''100.0''"
    by (simp_all add: js_def)
  then show "progress (snd (update tr now c)) \<noteq> js ''100.0''"
    using progress_zero_total[OF z, of now c] by simp
  show "remaining (snd (update tr now 0)) = js ''0s''"
    by (rule remaining_zero_total_0[OF z])
qed

theorem tracker_zero_total_witness:
  "totalItems (createProgressTracker 0 0) = 0
   \<and> progress (snd (update (createProgressTracker 0 0) 5000 1)) = js ''Infinity''
   \<and> progress (snd (update (createProgressTracker 0 0) 5000 0)) = js ''NaN''
   \<and> remaining (snd (update (createProgressTracker 0 0) 5000 0)) = js ''0s''"
proof -
  have h: "totalItems (createProgressTracker 0 0) = 0"
    by (simp add: createProgressTracker_def)
  from tracker_zero_total [of "createProgressTracker 0 0" 5000 1]
    tracker_zero_total [of "createProgressTracker 0 0" 5000 0] h
  show ?thesis by simp
qed

text \<open>
  The claim as written fails: five seconds after its creation a tracker for no items,
  updated with one completed item, reports \<open>Infinity\<close> percent and \<open>-5s\<close> remaining.
\<close>

theorem tracker_zero_total_counterexample:
  "progress (snd (update (createProgressTracker 0 0) 5000 1)) = js ''Infinity''
   \<and> remaining (snd (update (createProgressTracker 0 0) 5000 1)) = js ''-5s''
   \<and> progress (snd (update (createProgressTracker 0 0) 5000 1)) \<noteq> js ''100.0''
   \<and> remaining (snd (update (createProgressTracker 0 0) 5000 1)) \<noteq> js ''0s''"
  by code_simp

section \<open>Fetching one chapter: titles and outcomes\<close>

lemma split_none: "sep \<noteq> [] \<Longrightarrow> \<not> includes_str s sep \<Longrightarrow> split sep s = [s]"
proof (induction s)
  case Nil
  then show ?case by simp
next
  case (Cons c cs)
  then show ?case by (subst split.simps) simp
qed

lemma split_first:
  "sep \<noteq> [] \<Longrightarrow> \<not> includes_str (p @ butlast sep) sep \<Longrightarrow> hd (split sep (p @ sep @ r)) = p"
proof (induction p)
  case Nil
  then show ?case by (subst split.simps) simp
next
  case (Cons c p)
  from Cons.prems have a: "\<not> startsWith (c # p @ butlast sep) sep"
    and b: "\<not> includes_str (p @ butlast sep) sep" by simp_all
  have "sep = butlast sep @ [last sep]" using Cons.prems(1) by simp
  then have "c # p @ sep @ r = (c # p @ butlast sep) @ (last sep # r)"
    by (metis append.assoc append_Cons append_Nil)
  moreover have "length sep \<le> length (c # p @ butlast sep)" by simp
  ultimately have "take (length sep) (c # p @ sep @ r) = take (length sep) (c # p @ butlast sep)"
    by (metis take_append diff_is_0_eq take_0 append_Nil2)
  with a have ns: "\<not> startsWith (c # p @ sep @ r) sep"
    by (simp add: startsWith_def)
  have ne: "split sep (p @ sep @ r) \<noteq> []" using Cons.prems(1) by (rule split_ne_Nil)
  from Cons.IH[OF Cons.prems(1) b] ne ns Cons.prems(1) show ?case
    by (subst split.simps) (auto split: list.splits)
qed

lemma query_first_none:
  "\<forall>s \<in> set sels. doc s = None \<Longrightarrow> query_first doc sels = None"
  by (induction sels) simp_all

lemma query_first_nth:
  "i < length sels \<Longrightarrow> \<forall>j < i. doc (sels ! j) = None \<Longrightarrow> doc (sels ! i) = Some e \<Longrightarrow>
   query_first doc sels = Some e"
proof (induction sels arbitrary: i)
  case Nil
  then show ?case by simp
next
  case (Cons s sels)
  show ?case
  proof (cases i)
    case 0
    with Cons.prems show ?thesis by simp
  next
    case (Suc i')
    with Cons.prems have "doc s = None" by auto
    moreover have "query_first doc sels = Some e"
    proof (rule Cons.IH[of i'])
      show "i' < length sels" using Cons.prems Suc by simp
      show "\<forall>j < i'. doc (sels ! j) = None" using Cons.prems(2) Suc by auto
      show "doc (sels ! i') = Some e" using Cons.prems(3) Suc by simp
    qed
    ultimately show ?thesis by simp
  qed
qed

lemma query_first_Some:
  "query_first doc sels = Some e \<Longrightarrow>
   \<exists>i < length sels. (\<forall>j < i. doc (sels ! j) = None) \<and> doc (sels ! i) = Some e"
proof (induction sels)
  case Nil
  then show ?case by simp
next
  case (Cons s sels)
  show ?case
  proof (cases "doc s")
    case None
    with Cons obtain i where i: "i < length sels" "\<forall>j < i. doc (sels ! j) = None"
      "doc (sels ! i) = Some e" by auto
    have "\<forall>j < Suc i. doc ((s # sels) ! j) = None"
    proof (intro allI impI)
      fix j assume "j < Suc i" then show "doc ((s # sels) ! j) = None"
        using None i(2) by (cases j) auto
    qed
    with i show ?thesis by (intro exI[of _ "Suc i"]) simp
  next
    case (Some a)
    with Cons.prems show ?thesis by (intro exI[of _ 0]) simp
  qed
qed

lemma br_lits: "js ''<br>'' \<noteq> []" "butlast (js ''<br>'') = js ''<br''"
  by (simp_all add: js_def)

text \<open>
  Claim C6, amended. The title selectors are tried in order and the first element found
  decides the title. Its \<open>title\<close> attribute is taken when it is present and not empty.
  Otherwise, for an element without a line break (no \<open><br\<close> in its markup, no
  \<open><br>\<close> in its text), the title is its text, trimmed. When no selector matches, or
  that text is empty, the title is the placeholder \<open>Untitled Episode\<close>. Nothing is said
  here about an element with a line break.
\<close>

theorem title_resolution:
  "((\<forall>s \<in> set titleSelectors. doc s = None) \<longrightarrow>
      resolve_title (query_first doc titleSelectors) = js ''Untitled Episode'')
   \<and> (i < length titleSelectors \<and> (\<forall>j < i. doc (titleSelectors ! j) = None)
        \<and> doc (titleSelectors ! i) = Some e \<longrightarrow>
       (title_attribute e = Some a \<and> a \<noteq> [] \<longrightarrow>
          resolve_title (query_first doc titleSelectors) = a)
       \<and> ((title_attribute e = None \<or> title_attribute e = Some [])
            \<and> \<not> includes_str (innerHTML e) (js ''<br'')
            \<and> \<not> includes_str (textContent e) (js ''<br>'') \<longrightarrow>
          resolve_title (query_first doc titleSelectors)
            = (if trim (textContent e) \<noteq> [] then trim (textContent e)
               else js ''Untitled Episode'')))"
proof (intro conjI impI)
  assume "\<forall>s \<in> set titleSelectors. doc s = None"
  then show "resolve_title (query_first doc titleSelectors) = js ''Untitled Episode''"
    by (simp add: query_first_none resolve_title_def)
next
  assume m: "i < length titleSelectors \<and> (\<forall>j < i. doc (titleSelectors ! j) = None)
        \<and> doc (titleSelectors ! i) = Some e"
  then have q: "query_first doc titleSelectors = Some e"
    by (intro query_first_nth[of i]) simp_all
  {
    assume "title_attribute e = Some a \<and> a \<noteq> []"
    then show "resolve_title (query_first doc titleSelectors) = a"
      by (simp add: q resolve_title_def)
  }
  {
    assume n: "(title_attribute e = None \<or> title_attribute e = Some [])
            \<and> \<not> includes_str (innerHTML e) (js ''<br'')
            \<and> \<not> includes_str (textContent e) (js ''<br>'')"
    then have "hd (split (js ''<br>'') (textContent e)) = textContent e"
      using split_none[of "js ''<br>''" "textContent e"] by (simp add: br_lits)
    then show "resolve_title (query_first doc titleSelectors)
                 = (if trim (textContent e) \<noteq> [] then trim (textContent e)
                    else js ''Untitled Episode'')"
      using n by (auto simp: q resolve_title_def Let_def)
  }
qed

text \<open>
  At a line break the code does not do what it sets out to do. It cuts the text of the
  element at the characters \<open><br>\<close>, but \<open>textContent\<close> holds the text without the
  markup, so the \<open><br>\<close> of the element is not in it: the heading
  \<open>Chapter 3<br>2024\<close> has the text \<open>Chapter 32024\<close>, and that is the title.
\<close>

lemma title_line_break_not_cut:
  "resolve_title (query_first
      (\<lambda>selector.
         if selector = js ''.toon-title''
         then Some \<lparr>title_attribute = None, textContent = js ''Chapter 32024'',
                    innerHTML = js ''Chapter 3<br>2024''\<rparr>
         else None) titleSelectors) = js ''Chapter 32024''"
  by code_simp

text \<open>
  Claim C3. \<open>fetchNovelContent\<close> always returns an object with one of five status tags:
  an exception of \<open>fetch\<close> or of reading the page gives \<open>fetch_error\<close> with its message;
  status 403 gives \<open>captcha\<close>; another status outside 200 to 299 gives \<open>network_error\<close>
  with that status; a page in which no content selector matches gives
  \<open>no_content_found\<close>; otherwise \<open>success\<close> with the title and the cleaned content. Only
  the successful object has a \<open>content\<close> field.
\<close>

theorem fetchNovelContent_outcomes:
  "(fetch u = Throws msg \<longrightarrow> fetchNovelContent fetch u = FetchError u msg)
   \<and> (fetch u = Returns r \<and> status r = 403 \<longrightarrow> fetchNovelContent fetch u = Captcha u)
   \<and> (fetch u = Returns r \<and> status r \<noteq> 403 \<and> (status r < 200 \<or> 299 < status r) \<longrightarrow>
        fetchNovelContent fetch u = NetworkError u (status r))
   \<and> (fetch u = Returns r \<and> 200 \<le> status r \<and> status r \<le> 299 \<and> body r = Throws msg \<longrightarrow>
        fetchNovelContent fetch u = FetchError u msg)
   \<and> (fetch u = Returns r \<and> 200 \<le> status r \<and> status r \<le> 299 \<and> body r = Returns doc
        \<and> (\<forall>s \<in> set contentSelectors. doc s = None) \<longrightarrow>
        fetchNovelContent fetch u = NoContentFound u)
   \<and> (fetch u = Returns r \<and> 200 \<le> status r \<and> status r \<le> 299 \<and> body r = Returns doc
        \<and> i < length contentSelectors \<and> (\<forall>j < i. doc (contentSelectors ! j) = None)
        \<and> doc (contentSelectors ! i) = Some e \<longrightarrow>
        fetchNovelContent fetch u
          = Success (resolve_title (query_first doc titleSelectors))
              (if startsWith (cleanText (innerHTML e)) (resolve_title (query_first doc titleSelectors))
               then trim (drop (length (resolve_title (query_first doc titleSelectors)))
                           (cleanText (innerHTML e)))
               else cleanText (innerHTML e)))
   \<and> status_tag (fetchNovelContent fetch u)
        \<in> set [''success'', ''captcha'', ''network_error'', ''no_content_found'', ''fetch_error'']
   \<and> (content_field (fetchNovelContent fetch u) \<noteq> None \<longrightarrow>
        status_tag (fetchNovelContent fetch u) = ''success'')"
proof (intro conjI impI)
  show "status_tag (fetchNovelContent fetch u)
        \<in> set [''success'', ''captcha'', ''network_error'', ''no_content_found'', ''fetch_error'']"
    by (cases "fetchNovelContent fetch u") simp_all
next
  assume "content_field (fetchNovelContent fetch u) \<noteq> None"
  then show "status_tag (fetchNovelContent fetch u) = ''success''"
    by (cases "fetchNovelContent fetch u") simp_all
next
  assume "fetch u = Returns r \<and> 200 \<le> status r \<and> status r \<le> 299 \<and> body r = Returns doc
        \<and> (\<forall>s \<in> set contentSelectors. doc s = None)"
  then show "fetchNovelContent fetch u = NoContentFound u"
    by (simp add: fetchNovelContent_def ok_def query_first_none Let_def)
next
  assume a: "fetch u = Returns r \<and> 200 \<le> status r \<and> status r \<le> 299 \<and> body r = Returns doc
        \<and> i < length contentSelectors \<and> (\<forall>j < i. doc (contentSelectors ! j) = None)
        \<and> doc (contentSelectors ! i) = Some e"
  then have q: "query_first doc contentSelectors = Some e"
    by (intro query_first_nth[of i]) simp_all
  show "fetchNovelContent fetch u
          = Success (resolve_title (query_first doc titleSelectors))
              (if startsWith (cleanText (innerHTML e)) (resolve_title (query_first doc titleSelectors))
               then trim (drop (length (resolve_title (query_first doc titleSelectors)))
                           (cleanText (innerHTML e)))
               else cleanText (innerHTML e))"
    using a by (simp add: fetchNovelContent_def ok_def q Let_def)
qed (auto simp: fetchNovelContent_def ok_def)

theorem title_resolution_witness:
  "resolve_title (query_first (\<lambda>selector. None) titleSelectors) = js ''Untitled Episode''
   \<and> resolve_title (query_first
        (\<lambda>selector.
           if selector = js ''.view-title''
           then Some \<lparr>title_attribute = Some (js ''Chapter 12''), textContent = js ''ignored'',
                      innerHTML = []\<rparr>
           else if selector = js ''.post-title''
           then Some \<lparr>title_attribute = Some (js ''later match''), textContent = [], innerHTML = []\<rparr>
           else None) titleSelectors) = js ''Chapter 12''
   \<and> resolve_title (query_first (sample_page (js ''  Chapter 3  '') []) titleSelectors)
       = js ''Chapter 3''
   \<and> resolve_title (query_first (sample_page (js ''   '') []) titleSelectors)
       = js ''Untitled Episode''"
proof -
  let ?d2 = "\<lambda>selector.
           if selector = js ''.view-title''
           then Some \<lparr>title_attribute = Some (js ''Chapter 12''), textContent = js ''ignored'',
                      innerHTML = []\<rparr>
           else if selector = js ''.post-title''
           then Some \<lparr>title_attribute = Some (js ''later match''), textContent = [], innerHTML = []\<rparr>
           else None"
  let ?e2 = "\<lparr>title_attribute = Some (js ''Chapter 12''), textContent = js ''ignored'',
                      innerHTML = []\<rparr>"
  let ?d3 = "sample_page (js ''  Chapter 3  '') []"
  let ?e3 = "\<lparr>title_attribute = None, textContent = js ''  Chapter 3  '',
              innerHTML = js ''  Chapter 3  ''\<rparr>"
  let ?d4 = "sample_page (js ''   '') []"
  let ?e4 = "\<lparr>title_attribute = None, textContent = js ''   '', innerHTML = js ''   ''\<rparr>"
  have h1: "\<forall>s \<in> set titleSelectors. (\<lambda>selector. None :: element option) s = None" by simp
  have h2: "1 < length titleSelectors \<and> (\<forall>j < 1. ?d2 (titleSelectors ! j) = None)
      \<and> ?d2 (titleSelectors ! 1) = Some ?e2"
    by (simp add: titleSelectors_def js_def)
  have a2: "title_attribute ?e2 = Some (js ''Chapter 12'') \<and> js ''Chapter 12'' \<noteq> []"
    by (simp add: js_def)
  have h3: "0 < length titleSelectors \<and> (\<forall>j < 0. ?d3 (titleSelectors ! j) = None)
      \<and> ?d3 (titleSelectors ! 0) = Some ?e3"
    by (simp add: titleSelectors_def sample_page_def)
  have a3: "(title_attribute ?e3 = None \<or> title_attribute ?e3 = Some [])
      \<and> \<not> includes_str (innerHTML ?e3) (js ''<br'')
      \<and> \<not> includes_str (textContent ?e3) (js ''<br>'')"
    by code_simp
  have r3: "(if trim (textContent ?e3) \<noteq> [] then trim (textContent ?e3)
             else js ''Untitled Episode'') = js ''Chapter 3''"
    by code_simp
  have h4: "0 < length titleSelectors \<and> (\<forall>j < 0. ?d4 (titleSelectors ! j) = None)
      \<and> ?d4 (titleSelectors ! 0) = Some ?e4"
    by (simp add: titleSelectors_def sample_page_def)
  have a4: "(title_attribute ?e4 = None \<or> title_attribute ?e4 = Some [])
      \<and> \<not> includes_str (innerHTML ?e4) (js ''<br'')
      \<and> \<not> includes_str (textContent ?e4) (js ''<br>'')"
    by code_simp
  have r4: "(if trim (textContent ?e4) \<noteq> [] then trim (textContent ?e4)
             else js ''Untitled Episode'') = js ''Untitled Episode''"
    by code_simp
  from title_resolution [of "\<lambda>selector. None"] h1
  have c1: "resolve_title (query_first (\<lambda>selector. None) titleSelectors) = js ''Untitled Episode''"
    by blast
  from title_resolution [of ?d2 1 ?e2 "js ''Chapter 12''"] h2 a2
  have c2: "resolve_title (query_first ?d2 titleSelectors) = js ''Chapter 12''"
    by blast
  from title_resolution [of ?d3 0 ?e3] h3 a3
  have "resolve_title (query_first ?d3 titleSelectors)
      = (if trim (textContent ?e3) \<noteq> [] then trim (textContent ?e3)
         else js ''Untitled Episode'')"
    by blast
  then have c3: "resolve_title (query_first ?d3 titleSelectors) = js ''Chapter 3''"
    unfolding r3 .
  from title_resolution [of ?d4 0 ?e4] h4 a4
  have "resolve_title (query_first ?d4 titleSelectors)
      = (if trim (textContent ?e4) \<noteq> [] then trim (textContent ?e4)
         else js ''Untitled Episode'')"
    by blast
  then have c4: "resolve_title (query_first ?d4 titleSelectors) = js ''Untitled Episode''"
    unfolding r4 .
  from c1 c2 c3 c4 show ?thesis by blast
qed

text \<open>
  The claim as written fails on the placeholder: with no title element on the page the
  title is \<open>Untitled Episode\<close>, not \<open>Untitled\<close>.
\<close>

theorem title_resolution_counterexample:
  "resolve_title (query_first (\<lambda>selector. None) titleSelectors) = js ''Untitled Episode''
   \<and> resolve_title (query_first (\<lambda>selector. None) titleSelectors) \<noteq> js ''Untitled''"
  by code_simp

theorem fetchNovelContent_outcomes_witness:
  "fetchNovelContent (sample_network 4) (js ''https://booktoki.com/novel/5'')
     = FetchError (js ''https://booktoki.com/novel/5'') (js ''Failed to fetch'')
   \<and> fetchNovelContent (sample_network 1) (js ''https://booktoki.com/novel/2'')
     = Captcha (js ''https://booktoki.com/novel/2'')
   \<and> fetchNovelContent (sample_network 2) (js ''https://booktoki.com/novel/3'')
     = NetworkError (js ''https://booktoki.com/novel/3'') 500
   \<and> fetchNovelContent (\<lambda>u. Returns \<lparr>status = 200, body = Throws (js ''aborted'')\<rparr>)
        (js ''https://booktoki.com/novel/1'')
     = FetchError (js ''https://booktoki.com/novel/1'') (js ''aborted'')
   \<and> fetchNovelContent (\<lambda>u. Returns \<lparr>status = 204, body = Returns (\<lambda>selector. None)\<rparr>)
        (js ''https://booktoki.com/novel/1'')
     = NoContentFound (js ''https://booktoki.com/novel/1'')
   \<and> fetchNovelContent (sample_network 0) (js ''https://booktoki.com/novel/1'')
     = Success (js ''a/b'') (js ''one'')"
proof -
  let ?u = "js ''https://booktoki.com/novel/1''"
  let ?d = "sample_page (js ''a/b'') (js ''<p>one</p>'')"
  let ?e = "\<lparr>title_attribute = None, textContent = js ''<p>one</p>'',
             innerHTML = js ''<p>one</p>''\<rparr>"
  let ?r0 = "\<lparr>status = 200, body = Returns ?d\<rparr>"
  have c1: "fetchNovelContent (sample_network 4) (js ''https://booktoki.com/novel/5'')
     = FetchError (js ''https://booktoki.com/novel/5'') (js ''Failed to fetch'')"
    using fetchNovelContent_outcomes
      [of "sample_network 4" "js ''https://booktoki.com/novel/5''" "js ''Failed to fetch''"]
    by (simp add: sample_network_def)
  have c2: "fetchNovelContent (sample_network 1) (js ''https://booktoki.com/novel/2'')
     = Captcha (js ''https://booktoki.com/novel/2'')"
    using fetchNovelContent_outcomes
      [of "sample_network 1" "js ''https://booktoki.com/novel/2''" _ "\<lparr>status = 403, body = Throws []\<rparr>"]
    by (simp add: sample_network_def)
  have c3: "fetchNovelContent (sample_network 2) (js ''https://booktoki.com/novel/3'')
     = NetworkError (js ''https://booktoki.com/novel/3'') 500"
    using fetchNovelContent_outcomes
      [of "sample_network 2" "js ''https://booktoki.com/novel/3''" _ "\<lparr>status = 500, body = Throws []\<rparr>"]
    by (simp add: sample_network_def)
  have c4: "fetchNovelContent (\<lambda>u. Returns \<lparr>status = 200, body = Throws (js ''aborted'')\<rparr>) ?u
     = FetchError ?u (js ''aborted'')"
    using fetchNovelContent_outcomes
      [of "\<lambda>u. Returns \<lparr>status = 200, body = Throws (js ''aborted'')\<rparr>" ?u "js ''aborted''"
          "\<lparr>status = 200, body = Throws (js ''aborted'')\<rparr>"]
    by simp
  have h5: "\<forall>s \<in> set contentSelectors. (\<lambda>selector. None :: element option) s = None" by simp
  have c5: "fetchNovelContent (\<lambda>u. Returns \<lparr>status = 204, body = Returns (\<lambda>selector. None)\<rparr>) ?u
     = NoContentFound ?u"
    using fetchNovelContent_outcomes
      [of "\<lambda>u. Returns \<lparr>status = 204, body = Returns (\<lambda>selector. None)\<rparr>" ?u _
          "\<lparr>status = 204, body = Returns (\<lambda>selector. None)\<rparr>" "\<lambda>selector. None"] h5
    by simp
  have h6: "sample_network 0 ?u = Returns ?r0 \<and> 200 \<le> status ?r0 \<and> status ?r0 \<le> 299
      \<and> body ?r0 = Returns ?d
      \<and> 0 < length contentSelectors \<and> (\<forall>j < 0. ?d (contentSelectors ! j) = None)
      \<and> ?d (contentSelectors ! 0) = Some ?e"
    by (simp add: sample_network_def sample_page_def contentSelectors_def js_def)
  have v: "Success (resolve_title (query_first ?d titleSelectors))
              (if startsWith (cleanText (innerHTML ?e)) (resolve_title (query_first ?d titleSelectors))
               then trim (drop (length (resolve_title (query_first ?d titleSelectors)))
                           (cleanText (innerHTML ?e)))
               else cleanText (innerHTML ?e))
      = Success (js ''a/b'') (js ''one'')"
    by code_simp
  from fetchNovelContent_outcomes [of "sample_network 0" ?u _ ?r0 ?d 0 ?e] h6
  have "fetchNovelContent (sample_network 0) ?u
      = Success (resolve_title (query_first ?d titleSelectors))
              (if startsWith (cleanText (innerHTML ?e)) (resolve_title (query_first ?d titleSelectors))
               then trim (drop (length (resolve_title (query_first ?d titleSelectors)))
                           (cleanText (innerHTML ?e)))
               else cleanText (innerHTML ?e))"
    by blast
  then have c6: "fetchNovelContent (sample_network 0) ?u = Success (js ''a/b'') (js ''one'')"
    unfolding v .
  from c1 c2 c3 c4 c5 c6 show ?thesis by blast
qed

section \<open>Download loop: tallies, cancellation, setup failure\<close>

lemma handled_record_result [simp]:
  "handled (record_result z u r st) = handled st + 1"
  by (cases r) (simp_all add: handled_def record_result_def)

lemma grows_record_result: "grows_by_one st (record_result z u r st)"
  by (cases r) (simp_all add: grows_by_one_def record_result_def)

lemma record_result_flag [simp]:
  "isDownloadCancelled (record_result z u r st) = isDownloadCancelled st"
  by (cases r) (simp_all add: record_result_def)

lemma record_result_requested [simp]:
  "requested (record_result z u r st) = requested st"
  by (cases r) (simp_all add: record_result_def)

lemma record_result_raise:
  "record_result z u r (st\<lparr>isDownloadCancelled := b\<rparr>)
     = (record_result z u r st)\<lparr>isDownloadCancelled := b\<rparr>"
  by (cases r) (simp_all add: record_result_def)

lemma grows_by_one_flag:
  "grows_by_one s (s'\<lparr>isDownloadCancelled := b\<rparr>) = grows_by_one s s'"
  "grows_by_one (s\<lparr>isDownloadCancelled := b\<rparr>) s' = grows_by_one s s'"
  "grows_by_one (s\<lparr>requested := q\<rparr>) s' = grows_by_one s s'"
  by (simp_all add: grows_by_one_def)

lemma handled_upd [simp]:
  "handled (s\<lparr>isDownloadCancelled := b\<rparr>) = handled s"
  "handled (s\<lparr>requested := q\<rparr>) = handled s"
  by (simp_all add: handled_def)

lemma handled_iteration [simp]: "handled (iteration env z i u st) = handled st + 1"
  by (simp add: iteration_def Let_def)

lemma grows_iteration: "grows_by_one st (iteration env z i u st)"
  using grows_record_result[of "st\<lparr>requested := requested st @ [u]\<rparr>" z u]
  by (simp add: iteration_def Let_def grows_by_one_flag record_result_raise)

lemma requested_iteration [simp]:
  "requested (iteration env z i u st) = requested st @ [u]"
  by (simp add: iteration_def Let_def)

lemma loop_states_nth0 [simp]: "loop_states env z i us st ! 0 = st"
  by (cases us) simp_all

lemma loop_states_props:
  "loop_states env z i us st \<noteq> []
   \<and> hd (loop_states env z i us st) = st
   \<and> last (loop_states env z i us st) = download_loop env z i us st
   \<and> length (loop_states env z i us st) \<le> length us + 1
   \<and> (\<forall>j < length (loop_states env z i us st).
         handled (loop_states env z i us st ! j) = handled st + j)
   \<and> (\<forall>j. Suc j < length (loop_states env z i us st) \<longrightarrow>
         grows_by_one (loop_states env z i us st ! j) (loop_states env z i us st ! Suc j))
   \<and> (\<not> isDownloadCancelled (download_loop env z i us st) \<longrightarrow>
         length (loop_states env z i us st) = length us + 1)"
proof (induction us arbitrary: i st)
  case Nil
  then show ?case by simp
next
  case (Cons u us)
  show ?case
  proof (cases "isDownloadCancelled st")
    case True
    then show ?thesis by simp
  next
    case False
    let ?st' = "iteration env z i u st"
    let ?ss = "loop_states env z (i + 1) us ?st'"
    note ih = Cons.IH[of "i + 1" ?st']
    have ss: "loop_states env z i (u # us) st = st # ?ss" using False by simp
    have dl: "download_loop env z i (u # us) st = download_loop env z (i + 1) us ?st'"
      using False by simp
    have h: "\<forall>j < length (st # ?ss). handled ((st # ?ss) ! j) = handled st + j"
    proof (intro allI impI)
      fix j assume "j < length (st # ?ss)"
      then show "handled ((st # ?ss) ! j) = handled st + j"
        using ih by (cases j) auto
    qed
    have g: "\<forall>j. Suc j < length (st # ?ss) \<longrightarrow> grows_by_one ((st # ?ss) ! j) ((st # ?ss) ! Suc j)"
    proof (intro allI impI)
      fix j assume j: "Suc j < length (st # ?ss)"
      show "grows_by_one ((st # ?ss) ! j) ((st # ?ss) ! Suc j)"
      proof (cases j)
        case 0
        show ?thesis using 0 grows_iteration[of st env z i u] by simp
      next
        case (Suc j')
        then show ?thesis using ih j by simp
      qed
    qed
    show ?thesis
      unfolding ss dl using ih h g by simp
  qed
qed

text \<open>
  Claim C2. Along the states at the head of the loop, from the first to the one at the
  exit, each pass makes exactly one of \<open>completedEpisodes\<close>, \<open>skippedChapters\<close> and
  \<open>incompleteChapters\<close> grow by one; the state before pass \<open>j\<close> has handled \<open>j\<close> items, at
  most the number of URLs; at the exit the sum is the number of URLs unless the flag is up.
\<close>

theorem handled_invariant:
  "(let states = loop_states env saveAsZip 0 urls (initial_state title z);
        final = download_loop env saveAsZip 0 urls (initial_state title z)
    in last states = final
       \<and> (\<forall>j. Suc j < length states \<longrightarrow> grows_by_one (states ! j) (states ! Suc j))
       \<and> (\<forall>j < length states. handled (states ! j) = j \<and> handled (states ! j) \<le> length urls)
       \<and> handled final \<le> length urls
       \<and> (\<not> isDownloadCancelled final \<longrightarrow> handled final = length urls))"
proof -
  let ?st = "initial_state title z"
  let ?ss = "loop_states env saveAsZip 0 urls ?st"
  let ?final = "download_loop env saveAsZip 0 urls ?st"
  note p = loop_states_props[of env saveAsZip 0 urls ?st]
  have h0: "handled ?st = 0" by (simp add: handled_def initial_state_def)
  from p have ne: "?ss \<noteq> []" and la: "last ?ss = ?final"
    and len: "length ?ss \<le> length urls + 1"
    and hj: "\<forall>j < length ?ss. handled (?ss ! j) = handled ?st + j"
    and gr: "\<forall>j. Suc j < length ?ss \<longrightarrow> grows_by_one (?ss ! j) (?ss ! Suc j)"
    and full: "\<not> isDownloadCancelled ?final \<longrightarrow> length ?ss = length urls + 1"
    by blast+
  have a: "\<forall>j < length ?ss. handled (?ss ! j) = j \<and> handled (?ss ! j) \<le> length urls"
    using hj len h0 by auto
  have fin: "?final = ?ss ! (length ?ss - 1)"
    using la ne by (simp add: last_conv_nth)
  have b: "handled ?final = length ?ss - 1"
    unfolding fin using a ne by simp
  have c: "handled ?final \<le> length urls" using b len by simp
  have d: "\<not> isDownloadCancelled ?final \<longrightarrow> handled ?final = length urls"
    using b full by simp
  show ?thesis unfolding Let_def using la gr a c d by blast
qed

lemma loop_cancelled [simp]: "isDownloadCancelled st \<Longrightarrow> download_loop env z i us st = st"
  by (cases us) simp_all

lemma iteration_other:
  "cancel_iteration (cancel env) \<noteq> Some i \<Longrightarrow>
   iteration env z i u st = iteration (env\<lparr>cancel := NoCancel\<rparr>) z i u st"
  by (cases "cancel env") (simp_all add: iteration_def Let_def)

lemma iteration_raise:
  "cancel_iteration (cancel env) = Some i \<Longrightarrow>
   iteration env z i u st = (iteration (env\<lparr>cancel := NoCancel\<rparr>) z i u st)\<lparr>isDownloadCancelled := True\<rparr>"
  by (cases "cancel env") (simp_all add: iteration_def Let_def record_result_raise)

lemma iteration_NoCancel_flag [simp]:
  "cancel env = NoCancel \<Longrightarrow>
   isDownloadCancelled (iteration env z i u st) = isDownloadCancelled st"
  by (simp add: iteration_def Let_def)

lemma loop_NoCancel:
  "cancel env = NoCancel \<Longrightarrow> \<not> isDownloadCancelled st \<Longrightarrow>
   \<not> isDownloadCancelled (download_loop env z i us st)
   \<and> requested (download_loop env z i us st) = requested st @ us
   \<and> handled (download_loop env z i us st) = handled st + length us"
  by (induction us arbitrary: i st) simp_all

lemma loop_cut:
  assumes "cancel_iteration (cancel env) = Some c" "i \<le> c" "c - i < length us"
    "\<not> isDownloadCancelled st"
  shows "download_loop env z i us st
       = (download_loop (env\<lparr>cancel := NoCancel\<rparr>) z i (take (Suc (c - i)) us) st)
           \<lparr>isDownloadCancelled := True\<rparr>"
  using assms
proof (induction us arbitrary: i st)
  case Nil
  then show ?case by simp
next
  case (Cons u us)
  let ?env' = "env\<lparr>cancel := NoCancel\<rparr>"
  show ?case
  proof (cases "i = c")
    case True
    have it: "iteration env z c u st = (iteration ?env' z c u st)\<lparr>isDownloadCancelled := True\<rparr>"
      using Cons.prems(1) by (simp add: iteration_raise)
    show ?thesis using Cons.prems(4) True by (simp add: it)
  next
    case False
    with Cons.prems have lt: "i < c" by simp
    then have it: "iteration env z i u st = iteration ?env' z i u st"
      using Cons.prems(1) by (intro iteration_other) simp
    have nf: "\<not> isDownloadCancelled (iteration ?env' z i u st)"
      using Cons.prems(4) by simp
    have "c - (i + 1) < length us" using Cons.prems(3) lt by simp
    from Cons.IH[OF Cons.prems(1) _ this nf] lt
    have "download_loop env z (i + 1) us (iteration ?env' z i u st)
       = (download_loop ?env' z (i + 1) (take (Suc (c - (i + 1))) us) (iteration ?env' z i u st))
           \<lparr>isDownloadCancelled := True\<rparr>" by simp
    moreover have "take (Suc (c - i)) (u # us) = u # take (Suc (c - (i + 1))) us"
      using lt by (simp add: Suc_diff_Suc)
    ultimately show ?thesis using Cons.prems(4) by (simp add: it)
  qed
qed

text \<open>
  Claim C4. When the flag goes up during iteration \<open>i\<close>, with \<open>k\<close> items handled at that
  moment, the loop stops at the head of iteration \<open>i + 1\<close>: the URLs requested are those
  up to index \<open>i\<close> and no other, the final state is that of an undisturbed run over these
  URLs with the flag up, and the number of handled items is \<open>k\<close> or \<open>k + 1\<close>.
\<close>

theorem cancellation_stops_loop:
  assumes "cancel_iteration (cancel env) = Some i"
    and "handled_when_raised (cancel env) = Some k"
    and "i < length urls"
  shows "(let final = download_loop env saveAsZip 0 urls (initial_state title z);
              prefix_run = download_loop (env\<lparr>cancel := NoCancel\<rparr>) saveAsZip 0
                             (take (Suc i) urls) (initial_state title z)
          in isDownloadCancelled final
             \<and> requested final = take (Suc i) urls
             \<and> final = prefix_run\<lparr>isDownloadCancelled := True\<rparr>
             \<and> handled final = Suc i
             \<and> (handled final = k \<or> handled final = k + 1))"
proof -
  let ?st = "initial_state title z"
  let ?env' = "env\<lparr>cancel := NoCancel\<rparr>"
  let ?p = "download_loop ?env' saveAsZip 0 (take (Suc i) urls) ?st"
  have st: "\<not> isDownloadCancelled ?st" "requested ?st = []" "handled ?st = 0"
    by (simp_all add: initial_state_def handled_def)
  have cut: "download_loop env saveAsZip 0 urls ?st = ?p\<lparr>isDownloadCancelled := True\<rparr>"
    using loop_cut[OF assms(1), of 0 urls ?st saveAsZip] assms(3) st(1) by simp
  have p: "requested ?p = take (Suc i) urls" "handled ?p = Suc i"
    using loop_NoCancel[of ?env' ?st saveAsZip 0 "take (Suc i) urls"] st assms(3)
    by (simp_all add: min_def)
  have k: "k = i \<or> k = Suc i"
    using assms(1,2) by (cases "cancel env") auto
  show ?thesis
    unfolding Let_def cut using p k by auto
qed

lemma wait_for_jszip_steps:
  "\<exists>j. e = j * CHECK_INTERVAL \<and> j * CHECK_INTERVAL \<le> MAX_WAIT_TIME \<Longrightarrow>
   \<exists>j. wait_for_jszip d e = j * CHECK_INTERVAL \<and> j * CHECK_INTERVAL \<le> MAX_WAIT_TIME"
proof (induction d e rule: wait_for_jszip.induct)
  case (1 d e)
  show ?case
  proof (cases "\<not> d e \<and> e < MAX_WAIT_TIME")
    case True
    from "1.prems" obtain j where j: "e = j * CHECK_INTERVAL" by blast
    with True have "j < 50" by (simp add: MAX_WAIT_TIME_def CHECK_INTERVAL_def)
    then have "e + CHECK_INTERVAL = Suc j * CHECK_INTERVAL
        \<and> Suc j * CHECK_INTERVAL \<le> MAX_WAIT_TIME"
      using j by (simp add: MAX_WAIT_TIME_def CHECK_INTERVAL_def)
    then have "\<exists>j. e + CHECK_INTERVAL = j * CHECK_INTERVAL \<and> j * CHECK_INTERVAL \<le> MAX_WAIT_TIME"
      by blast
    from "1.IH"[OF True this] True show ?thesis
      by (subst wait_for_jszip.simps) simp
  next
    case False
    with "1.prems" show ?thesis
      by (subst wait_for_jszip.simps) auto
  qed
qed

lemma load_jszip_fails:
  assumes "\<not> script_loads env \<or> (\<forall>j \<le> 50. \<not> jszip_defined env (j * 100))"
  shows "\<exists>msg. load_jszip env = Throws msg"
proof (cases "script_loads env")
  case True
  with assms have u: "\<forall>j \<le> 50. \<not> jszip_defined env (j * 100)" by simp
  have "\<exists>j. (0::nat) = j * CHECK_INTERVAL \<and> j * CHECK_INTERVAL \<le> MAX_WAIT_TIME"
    by (rule exI[of _ 0]) simp
  from wait_for_jszip_steps[OF this, of "jszip_defined env"]
  obtain j where "wait_for_jszip (jszip_defined env) 0 = j * CHECK_INTERVAL"
    "j * CHECK_INTERVAL \<le> MAX_WAIT_TIME"
    by blast
  then have "\<not> jszip_defined env (wait_for_jszip (jszip_defined env) 0)"
    using u by (simp add: MAX_WAIT_TIME_def CHECK_INTERVAL_def)
  then show ?thesis using True by (simp add: load_jszip_def)
qed (simp add: load_jszip_def)

text \<open>
  Claim C8. In ZIP mode, when the script fails to load or \<open>window.JSZip\<close> is undefined at
  every check of the wait (every 100 ms up to 5000 ms), the function returns from the
  \<open>catch\<close> block: the loop is never entered, so nothing is fetched, and none of the job's
  variables exists.
\<close>

theorem setup_failure_before_any_fetch:
  assumes "\<not> script_loads env \<or> (\<forall>j \<le> 50. \<not> jszip_defined env (j * 100))"
  shows "(\<exists>msg. load_jszip env = Throws msg
            \<and> processDownloadCore env title urls True original
                = SetupFailure (msg @ js ''ZIP Library Load Failed''))
         \<and> final_state (processDownloadCore env title urls True original) = None"
proof -
  from load_jszip_fails[OF assms] obtain msg where "load_jszip env = Throws msg" ..
  then show ?thesis by (simp add: processDownloadCore_def)
qed

theorem handled_invariant_witness:
  "\<not> isDownloadCancelled (download_loop (sample_env True NoCancel) False 0 (take 3 sample_urls)
        (initial_state (js ''T'') None))
   \<and> handled (download_loop (sample_env True NoCancel) False 0 (take 3 sample_urls)
        (initial_state (js ''T'') None)) = 3
   \<and> completedEpisodes (download_loop (sample_env True NoCancel) False 0 (take 3 sample_urls)
        (initial_state (js ''T'') None)) = 1
   \<and> skippedChapters (download_loop (sample_env True NoCancel) False 0 (take 3 sample_urls)
        (initial_state (js ''T'') None))
      = [\<lparr>url = js ''https://booktoki.com/novel/2'', reason = js ''CAPTCHA (403)''\<rparr>]
   \<and> incompleteChapters (download_loop (sample_env True NoCancel) False 0 (take 3 sample_urls)
        (initial_state (js ''T'') None))
      = [\<lparr>url = js ''https://booktoki.com/novel/3'', reason = js ''Network Error (500)''\<rparr>]"
proof -
  let ?F = "download_loop (sample_env True NoCancel) False 0 (take 3 sample_urls)
        (initial_state (js ''T'') None)"
  have nc: "\<not> isDownloadCancelled ?F" by code_simp
  have len: "length (take 3 sample_urls) = 3" by code_simp
  have rest: "completedEpisodes ?F = 1
     \<and> skippedChapters ?F = [\<lparr>url = js ''https://booktoki.com/novel/2'', reason = js ''CAPTCHA (403)''\<rparr>]
     \<and> incompleteChapters ?F
        = [\<lparr>url = js ''https://booktoki.com/novel/3'', reason = js ''Network Error (500)''\<rparr>]"
    by code_simp
  from handled_invariant [of "sample_env True NoCancel" False "take 3 sample_urls" "js ''T''" None]
  have "\<not> isDownloadCancelled ?F \<longrightarrow> handled ?F = length (take 3 sample_urls)"
    unfolding Let_def by blast
  with nc have "handled ?F = length (take 3 sample_urls)" by blast
  then have "handled ?F = 3" unfolding len .
  with nc rest show ?thesis by blast
qed

theorem cancellation_stops_loop_witness:
  "isDownloadCancelled (download_loop (sample_env True (DuringFetch 1)) False 0 sample_urls
        (initial_state (js ''T'') None))
   \<and> requested (download_loop (sample_env True (DuringFetch 1)) False 0 sample_urls
        (initial_state (js ''T'') None))
      = [js ''https://booktoki.com/novel/1'', js ''https://booktoki.com/novel/2'']
   \<and> handled (download_loop (sample_env True (DuringFetch 1)) False 0 sample_urls
        (initial_state (js ''T'') None)) = 2
   \<and> handled_when_raised (cancel (sample_env True (DuringFetch 1))) = Some 1
   \<and> handled (download_loop (sample_env True (DuringDelay 1)) False 0 sample_urls
        (initial_state (js ''T'') None)) = 2
   \<and> handled_when_raised (cancel (sample_env True (DuringDelay 1))) = Some 2"
proof -
  have a: "cancel_iteration (cancel (sample_env True (DuringFetch 1))) = Some 1"
    "handled_when_raised (cancel (sample_env True (DuringFetch 1))) = Some 1"
    "cancel_iteration (cancel (sample_env True (DuringDelay 1))) = Some 1"
    "handled_when_raised (cancel (sample_env True (DuringDelay 1))) = Some 2"
    by (simp_all add: sample_env_def)
  have l: "1 < length sample_urls" by (simp add: sample_urls_def)
  have t: "take 2 sample_urls
      = [js ''https://booktoki.com/novel/1'', js ''https://booktoki.com/novel/2'']"
    by (simp add: sample_urls_def)
  let ?F1 = "download_loop (sample_env True (DuringFetch 1)) False 0 sample_urls
        (initial_state (js ''T'') None)"
  let ?F2 = "download_loop (sample_env True (DuringDelay 1)) False 0 sample_urls
        (initial_state (js ''T'') None)"
  from cancellation_stops_loop [OF a(1) a(2) l, of False "js ''T''" None]
  have f1: "isDownloadCancelled ?F1 \<and> requested ?F1 = take (Suc 1) sample_urls
      \<and> handled ?F1 = Suc 1"
    unfolding Let_def by blast
  from cancellation_stops_loop [OF a(3) a(4) l, of False "js ''T''" None]
  have f2: "handled ?F2 = Suc 1"
    unfolding Let_def by blast
  from f1 f2 a(2) a(4) show ?thesis unfolding Suc_1 t by blast
qed

theorem setup_failure_before_any_fetch_witness:
  "processDownloadCore (sample_env False NoCancel) (js ''T'') sample_urls True []
     = SetupFailure (js ''Failed to load script: https://cdnjs.cloudflare.com/ajax/libs/jszip/3.10.1/jszip.min.jsZIP Library Load Failed'')
   \<and> final_state (processDownloadCore (sample_env False NoCancel) (js ''T'') sample_urls True []) = None
   \<and> processDownloadCore (sample_env True NoCancel) (js ''T'') sample_urls True []
     = SetupFailure (js ''JSZip did not become defined within the expected time.ZIP Library Load Failed'')
   \<and> final_state (processDownloadCore (sample_env True NoCancel) (js ''T'') sample_urls True []) = None"
proof -
  have h1: "\<not> script_loads (sample_env False NoCancel)
      \<or> (\<forall>j \<le> 50. \<not> jszip_defined (sample_env False NoCancel) (j * 100))"
    by (simp add: sample_env_def)
  have h2: "\<not> script_loads (sample_env True NoCancel)
      \<or> (\<forall>j \<le> 50. \<not> jszip_defined (sample_env True NoCancel) (j * 100))"
    by (simp add: sample_env_def)
  have m1: "load_jszip (sample_env False NoCancel)
      = Throws (js ''Failed to load script: https://cdnjs.cloudflare.com/ajax/libs/jszip/3.10.1/jszip.min.js'')"
    by (simp add: load_jszip_def sample_env_def)
  have m2: "load_jszip (sample_env True NoCancel)
      = Throws (js ''JSZip did not become defined within the expected time.'')"
    by (simp add: load_jszip_def sample_env_def)
  have j: "js ''Failed to load script: https://cdnjs.cloudflare.com/ajax/libs/jszip/3.10.1/jszip.min.js'' @ js ''ZIP Library Load Failed''
      = js ''Failed to load script: https://cdnjs.cloudflare.com/ajax/libs/jszip/3.10.1/jszip.min.jsZIP Library Load Failed''"
    "js ''JSZip did not become defined within the expected time.'' @ js ''ZIP Library Load Failed''
      = js ''JSZip did not become defined within the expected time.ZIP Library Load Failed''"
    by (simp_all add: js_def)
  from setup_failure_before_any_fetch [OF h1, of "js ''T''" sample_urls "[]"]
    setup_failure_before_any_fetch [OF h2, of "js ''T''" sample_urls "[]"] m1 m2 j
  show ?thesis by auto
qed

section \<open>Archive entries\<close>


lemma requested_loop_bound:
  "length (requested (download_loop env z i us st)) \<le> length (requested st) + length us"
proof (induction us arbitrary: i st)
  case (Cons u us)
  show ?case
    using Cons[where i = "i + 1" and st = "iteration env z i u st"] by simp
qed simp













end
